(* ===== verification/Prelude.thy ===== *)
theory Prelude
  imports Main "HOL-Library.Word"
begin

text \<open>
  Vocabulary shared by every component of the development: the C integer types, the ways in
  which a C program can go wrong (as values of the type \<open>fault\<close>), the result type of fallible
  code with its \<open>bindR\<close>, checked signed arithmetic, writes into fixed-size buffers, and the
  byte images of integers in either byte order. The named collections gather the rewrite
  rules that the component theories use.
\<close>

unbundle bit_operations_syntax

section \<open>Types\<close>

type_synonym byte = "8 word"
type_synonym u8 = "8 word"
type_synonym u16 = "16 word"
type_synonym u32 = "32 word"
type_synonym u64 = "64 word"
type_synonym size_t = "64 word"

text \<open>Signed C integers are words read with \<open>sint\<close>.\<close>

type_synonym i16 = "16 word"
type_synonym i32 = "32 word"
type_synonym i64 = "64 word"

named_theorems result_simps \<open>rewriting of the result monad\<close>
named_theorems byte_simps \<open>lengths and round trips of byte images\<close>

section \<open>Faults and results\<close>

text \<open>
  What C leaves undefined, or what stops the process, is a value: a division by zero, a
  dereference of a null pointer, an access outside an object, an access to a freed object, a
  second \<open>free\<close>, a signed overflow, a failed \<open>assert\<close>, a call of \<open>abort\<close>, a read of an
  uninitialised variable, and a call through a function pointer of another type.
\<close>

datatype fault =
    DivByZero
  | NullDeref
  | OutOfBounds
  | UseAfterFree
  | DoubleFree
  | SignedOverflow
  | AssertFailure
  | Aborted
  | UninitRead
  | TypeConfusion

type_synonym 'a result = "fault + 'a"

text \<open>Sequencing; the left side may be any type of early ends.\<close>

definition bindR :: "'e + 'a \<Rightarrow> ('a \<Rightarrow> 'e + 'b) \<Rightarrow> 'e + 'b" where
  "bindR m f = (case m of Inl e \<Rightarrow> Inl e | Inr x \<Rightarrow> f x)"

lemma bindR_simps [simp, result_simps]:
  "bindR (Inl e) f = Inl e"
  "bindR (Inr x) f = f x"
  by (simp_all add: bindR_def)

lemma bindR_assoc [result_simps]: "bindR (bindR m f) g = bindR m (\<lambda>x. bindR (f x) g)"
  by (cases m) simp_all

lemma bindR_eq_Inr_iff: "bindR m f = Inr y \<longleftrightarrow> (\<exists>x. m = Inr x \<and> f x = Inr y)"
  by (cases m) simp_all

lemma bindR_eq_Inl_iff: "bindR m f = Inl e \<longleftrightarrow> m = Inl e \<or> (\<exists>x. m = Inr x \<and> f x = Inl e)"
  by (cases m) simp_all

lemma bindR_eq_InrE [elim]:
  assumes "bindR m f = Inr y"
  obtains x where "m = Inr x" and "f x = Inr y"
  using assms by (auto simp: bindR_eq_Inr_iff)

text \<open>A guard: continue when the condition holds, stop with the fault otherwise.\<close>

definition guardR :: "bool \<Rightarrow> 'e \<Rightarrow> 'e + 'a \<Rightarrow> 'e + 'a" where
  "guardR b e m = (if b then m else Inl e)"

lemma guardR_simps [simp, result_simps]:
  "guardR True e m = m"
  "guardR False e m = Inl e"
  by (simp_all add: guardR_def)

lemma guardR_eq_Inr_iff: "guardR b e m = Inr y \<longleftrightarrow> b \<and> m = Inr y"
  by (simp add: guardR_def)

text \<open>
  A \<open>for\<close> loop over the given indices, each iteration on the state the previous one left; the
  first fault ends it. An invariant indexed by the number of finished iterations carries
  over the whole loop.
\<close>

fun forR :: "'i list \<Rightarrow> ('i \<Rightarrow> 's \<Rightarrow> 'e + 's) \<Rightarrow> 's \<Rightarrow> 'e + 's" where
  "forR [] f s = Inr s"
| "forR (i # is) f s = bindR (f i s) (forR is f)"

lemma forR_append: "forR (xs @ ys) f s = bindR (forR xs f s) (forR ys f)"
  by (induction xs arbitrary: s) (auto simp: bindR_def split: sum.splits)

lemma forR_range_invariant:
  assumes "m \<le> n" and "P m s" and "\<And>i s. m \<le> i \<Longrightarrow> i < n \<Longrightarrow> P i s \<Longrightarrow> \<exists>s'. f i s = Inr s' \<and> P (Suc i) s'"
  shows "\<exists>s'. forR [m..<n] f s = Inr s' \<and> P n s'"
  using assms(1,3)
proof (induction n rule: dec_induct)
  case base
  then show ?case using assms(2) by simp
next
  case (step n)
  then obtain s' where "forR [m..<n] f s = Inr s'" "P n s'" by (meson less_Suc_eq)
  moreover obtain s'' where "f n s' = Inr s''" "P (Suc n) s''"
    using step.prems [of n s'] step.hyps calculation by auto
  ultimately show ?case using step.hyps by (simp add: forR_append)
qed

lemma forR_upt_invariant:
  assumes "P 0 s" and "\<And>i s. i < n \<Longrightarrow> P i s \<Longrightarrow> \<exists>s'. f i s = Inr s' \<and> P (Suc i) s'"
  shows "\<exists>s'. forR [0..<n] f s = Inr s' \<and> P n s'"
  using assms by (intro forR_range_invariant) simp_all

section \<open>Checked signed arithmetic\<close>

text \<open>
  \<open>schk i\<close> is the mathematical result \<open>i\<close> of a signed operation stored at the width of the
  result type, or a fault when it does not fit.
\<close>

definition schk :: "int \<Rightarrow> 'a::len word result" where
  "schk i = (if - (2 ^ (LENGTH('a) - 1)) \<le> i \<and> i < 2 ^ (LENGTH('a) - 1)
             then Inr (word_of_int i) else Inl SignedOverflow)"

lemma sint_word_of_int_inrange:
  assumes "- (2 ^ (LENGTH('a) - 1)) \<le> i" and "i < 2 ^ (LENGTH('a) - 1)"
  shows "sint (word_of_int i :: 'a::len word) = i"
  using assms by (simp add: sint_sbintrunc' signed_take_bit_int_eq_self)

lemma schk_eq_Inr_iff:
  "(schk i :: 'a::len word result) = Inr v \<longleftrightarrow>
     - (2 ^ (LENGTH('a) - 1)) \<le> i \<and> i < 2 ^ (LENGTH('a) - 1) \<and> v = word_of_int i"
  by (auto simp: schk_def)

lemma schk_sint: "(schk i :: 'a::len word result) = Inr v \<Longrightarrow> sint v = i"
  by (auto simp: schk_eq_Inr_iff sint_word_of_int_inrange)

lemma schk_eq_Inl_iff:
  "(schk i :: 'a::len word result) = Inl e \<longleftrightarrow>
     e = SignedOverflow \<and> (i < - (2 ^ (LENGTH('a) - 1)) \<or> 2 ^ (LENGTH('a) - 1) \<le> i)"
  by (auto simp: schk_def)

text \<open>The signed remainder of C, whose sign is that of the first operand.\<close>

definition c_rem :: "int \<Rightarrow> int \<Rightarrow> int" where
  "c_rem a b = sgn a * (\<bar>a\<bar> mod \<bar>b\<bar>)"

lemma c_rem_nonneg: "0 \<le> a \<Longrightarrow> 0 < b \<Longrightarrow> c_rem a b = a mod b"
  by (cases "a = 0") (simp_all add: c_rem_def)

section \<open>Buffers\<close>

text \<open>
  \<open>write_bytes buf off bs\<close> stores \<open>bs\<close> at offset \<open>off\<close> of the array \<open>buf\<close>; a store that does not
  lie inside the array is out of bounds.
\<close>

definition write_bytes :: "byte list \<Rightarrow> nat \<Rightarrow> byte list \<Rightarrow> byte list result" where
  "write_bytes buf off bs =
     (if off + length bs \<le> length buf
      then Inr (take off buf @ bs @ drop (off + length bs) buf)
      else Inl OutOfBounds)"

lemma write_bytes_ok:
  "off + length bs \<le> length buf \<Longrightarrow>
   write_bytes buf off bs = Inr (take off buf @ bs @ drop (off + length bs) buf)"
  by (simp add: write_bytes_def)

text \<open>A store at the end of what has been written so far extends the written part.\<close>

lemma write_bytes_after:
  assumes "length pre = off" and "off + length bs \<le> length pre + length post"
  shows "write_bytes (pre @ post) off bs = Inr ((pre @ bs) @ drop (length bs) post)"
  using assms by (simp add: write_bytes_def)

text \<open>Reading and writing an element of a fixed-size array.\<close>

definition array_get :: "'a list \<Rightarrow> nat \<Rightarrow> 'a result" where
  "array_get xs i = guardR (i < length xs) OutOfBounds (Inr (xs ! i))"

definition array_set :: "'a list \<Rightarrow> nat \<Rightarrow> 'a \<Rightarrow> 'a list result" where
  "array_set xs i x = guardR (i < length xs) OutOfBounds (Inr (xs[i := x]))"

lemma array_simps [result_simps]:
  "i < length xs \<Longrightarrow> array_get xs i = Inr (xs ! i)"
  "i < length xs \<Longrightarrow> array_set xs i x = Inr (xs[i := x])"
  by (simp_all add: array_get_def array_set_def)

text \<open>\<open>field off n bs\<close> reads \<open>n\<close> bytes at offset \<open>off\<close>.\<close>

definition field :: "nat \<Rightarrow> nat \<Rightarrow> byte list \<Rightarrow> byte list" where
  "field off n bs = take n (drop off bs)"

lemma field_skip: "length a \<le> off \<Longrightarrow> field off n (a @ b) = field (off - length a) n b"
  by (simp add: field_def)

lemma field_here: "length a = n \<Longrightarrow> field 0 n (a @ b) = a"
  by (simp add: field_def)

lemma field_last: "length a = n \<Longrightarrow> field 0 n a = a"
  by (simp add: field_def)

lemma length_field: "off + n \<le> length bs \<Longrightarrow> length (field off n bs) = n"
  by (simp add: field_def)

section \<open>Byte images of integers\<close>

text \<open>\<open>be_bytes n w\<close>: the low \<open>n\<close> bytes of \<open>w\<close>, most significant first.\<close>

fun be_bytes :: "nat \<Rightarrow> 'a::len word \<Rightarrow> byte list" where
  "be_bytes 0 w = []"
| "be_bytes (Suc n) w = be_bytes n (drop_bit 8 w) @ [ucast w]"

fun be_nat :: "nat \<Rightarrow> byte list \<Rightarrow> nat" where
  "be_nat acc [] = acc"
| "be_nat acc (b # bs) = be_nat (acc * 256 + unat b) bs"

definition be_word :: "byte list \<Rightarrow> 'a::len word" where
  "be_word bs = of_nat (be_nat 0 bs)"

lemma length_be_bytes [simp, byte_simps]: "length (be_bytes n w) = n"
  by (induction n arbitrary: w) auto

lemma be_bytes_numeral:
  "be_bytes (numeral k) w = be_bytes (pred_numeral k) (drop_bit 8 w) @ [ucast w]"
  by (simp only: numeral_eq_Suc be_bytes.simps)

lemma be_nat_append: "be_nat acc (xs @ ys) = be_nat (be_nat acc xs) ys"
  by (induction xs arbitrary: acc) auto

lemma be_nat_acc: "be_nat acc xs = acc * 256 ^ length xs + be_nat 0 xs"
proof (induction xs arbitrary: acc)
  case (Cons x xs)
  show ?case
    using Cons.IH [of "acc * 256 + unat x"] Cons.IH [of "unat x"]
    by (simp add: algebra_simps)
qed simp

lemma unat_byte_less: "unat (b :: byte) < 256"
  using unsigned_less [of b, where ?'a = nat] by simp

lemma be_nat_less: "be_nat 0 xs < 256 ^ length xs"
proof (induction xs)
  case (Cons x xs)
  have "be_nat 0 (x # xs) = unat x * 256 ^ length xs + be_nat 0 xs"
    using be_nat_acc [of "unat x" xs] by simp
  also have "\<dots> < (unat x + 1) * 256 ^ length xs"
    using Cons.IH by simp
  also have "\<dots> \<le> 256 * 256 ^ length xs"
    using unat_byte_less [of x] by (intro mult_right_mono) auto
  finally show ?case by simp
qed simp

lemma unat_ucast_byte: "unat (ucast (w :: 'a::len word) :: byte) = unat w mod 256"
  by (simp add: unsigned_ucast_eq take_bit_eq_mod)

lemma be_nat_be_bytes: "be_nat 0 (be_bytes n (w :: 'a::len word)) = unat w mod 256 ^ n"
proof (induction n arbitrary: w)
  case (Suc n)
  define v where "v = drop_bit 8 w"
  have "unat v = unat w div 2 ^ 8"
    unfolding v_def unat_drop_bit_eq by (rule drop_bit_eq_div)
  moreover have "be_bytes (Suc n) w = be_bytes n v @ [ucast w]"
    by (simp only: be_bytes.simps v_def)
  ultimately have "be_nat 0 (be_bytes (Suc n) w) = (unat w div 256) mod 256 ^ n * 256 + unat w mod 256"
    using Suc.IH [of v] by (simp add: be_nat_append unat_ucast_byte)
  then show ?case
    by (simp add: mod_mult2_eq algebra_simps)
qed simp

lemma be_word_be_bytes [byte_simps]:
  assumes "8 * n = LENGTH('a::len)"
  shows "be_word (be_bytes n (w :: 'a word)) = w"
proof -
  have "(256::nat) ^ n = (2 ^ 8) ^ n" by simp
  also have "\<dots> = 2 ^ LENGTH('a)"
    using assms by (metis power_mult)
  finally have "unat w mod 256 ^ n = unat w"
    using unsigned_less [of w, where ?'a = nat] by simp
  then show ?thesis
    by (simp add: be_word_def be_nat_be_bytes)
qed

end
