(* ===== verification/Fifo_Interface.thy ===== *)
theory Fifo_Interface
  imports Prelude
begin

text \<open>
  The contract of a bounded first-in first-out queue of pointers, as a locale: what a push
  and a pop return and what they do to the queue's contents. A pointer is an \<open>'a option\<close>,
  with \<open>None\<close> for \<open>NULL\<close>. The abstract machine \<open>spec_run\<close> works on lists; the client lemmas of
  the locale show that any provider of the contract answers every sequence of operations as
  the abstract machine does.
\<close>

datatype 'a fifo_op = Push "'a option" | Pop

datatype 'a fifo_out = Pushed bool | Popped "'a option"

text \<open>The abstract queue.\<close>

fun spec_step :: "nat \<Rightarrow> 'a fifo_op \<Rightarrow> 'a option list \<Rightarrow> 'a fifo_out \<times> 'a option list" where
  "spec_step cap (Push x) xs = (if length xs < cap then (Pushed True, xs @ [x]) else (Pushed False, xs))"
| "spec_step cap Pop [] = (Popped None, [])"
| "spec_step cap Pop (x # xs) = (Popped x, xs)"

fun spec_run :: "nat \<Rightarrow> 'a fifo_op list \<Rightarrow> 'a option list \<Rightarrow> 'a fifo_out list \<times> 'a option list" where
  "spec_run cap [] xs = ([], xs)"
| "spec_run cap (op # ops) xs =
     (let (out, xs') = spec_step cap op xs; (outs, xs'') = spec_run cap ops xs'
      in (out # outs, xs''))"

text \<open>The same operations on a concrete queue.\<close>

fun run_op ::
  "('q \<Rightarrow> 'a option \<Rightarrow> (bool \<times> 'q) result) \<Rightarrow> ('q \<Rightarrow> ('a option \<times> 'q) result) \<Rightarrow>
   'a fifo_op \<Rightarrow> 'q \<Rightarrow> ('a fifo_out \<times> 'q) result" where
  "run_op push pop (Push x) q = bindR (push q x) (\<lambda>(ok, q'). Inr (Pushed ok, q'))"
| "run_op push pop Pop q = bindR (pop q) (\<lambda>(x, q'). Inr (Popped x, q'))"

fun run_ops ::
  "('q \<Rightarrow> 'a option \<Rightarrow> (bool \<times> 'q) result) \<Rightarrow> ('q \<Rightarrow> ('a option \<times> 'q) result) \<Rightarrow>
   'a fifo_op list \<Rightarrow> 'q \<Rightarrow> ('a fifo_out list \<times> 'q) result" where
  "run_ops push pop [] q = Inr ([], q)"
| "run_ops push pop (op # ops) q =
     bindR (run_op push pop op q) (\<lambda>(out, q').
       bindR (run_ops push pop ops q') (\<lambda>(outs, q''). Inr (out # outs, q'')))"

text \<open>What went into and what came out of a run.\<close>

fun accepted :: "'a fifo_op list \<Rightarrow> 'a fifo_out list \<Rightarrow> 'a option list" where
  "accepted (Push x # ops) (Pushed True # outs) = x # accepted ops outs"
| "accepted (op # ops) (out # outs) = accepted ops outs"
| "accepted _ _ = []"

fun delivered :: "'a fifo_out list \<Rightarrow> 'a option list" where
  "delivered (Popped (Some x) # outs) = Some x # delivered outs"
| "delivered (out # outs) = delivered outs"
| "delivered [] = []"

definition non_null_op :: "'a fifo_op \<Rightarrow> bool" where
  "non_null_op op = (op \<noteq> Push None)"

lemma spec_step_length:
  "length xs \<le> cap \<Longrightarrow> length (snd (spec_step cap op xs)) \<le> cap"
  by (cases op; cases xs) auto

lemma spec_run_fifo:
  assumes "spec_run cap ops xs = (outs, ys)" and "None \<notin> set xs" and "list_all non_null_op ops"
  shows "xs @ accepted ops outs = delivered outs @ ys"
  using assms
proof (induction ops arbitrary: xs outs)
  case Nil
  then show ?case by simp
next
  case (Cons op ops)
  obtain out xs' where step: "spec_step cap op xs = (out, xs')" by force
  obtain outs' where run: "spec_run cap ops xs' = (outs', ys)" and outs: "outs = out # outs'"
    using Cons.prems(1) step by (auto split: prod.splits)
  have nn: "None \<notin> set xs'"
    using step Cons.prems(2,3)
    by (cases op; cases xs) (auto simp: non_null_op_def split: if_splits)
  have IH: "xs' @ accepted ops outs' = delivered outs' @ ys"
    using Cons.IH [OF run nn] Cons.prems(3) by simp
  show ?case
  proof (cases op)
    case (Push x)
    then show ?thesis
      using IH step outs by (auto split: if_splits)
  next
    case Pop
    then show ?thesis
      using IH step outs Cons.prems(2) by (cases xs; cases "hd xs") auto
  qed
qed

locale bounded_fifo =
  fixes push :: "'q \<Rightarrow> 'a option \<Rightarrow> (bool \<times> 'q) result"
    and pop :: "'q \<Rightarrow> ('a option \<times> 'q) result"
    and contents :: "'q \<Rightarrow> 'a option list"
    and capacity :: "'q \<Rightarrow> nat"
    and invar :: "'q \<Rightarrow> bool"
  assumes within_capacity: "invar q \<Longrightarrow> length (contents q) \<le> capacity q"
    and push_room: "invar q \<Longrightarrow> length (contents q) < capacity q \<Longrightarrow>
      \<exists>q'. push q x = Inr (True, q') \<and> invar q' \<and> contents q' = contents q @ [x]
           \<and> capacity q' = capacity q"
    and push_full: "invar q \<Longrightarrow> length (contents q) = capacity q \<Longrightarrow> push q x = Inr (False, q)"
    and pop_empty: "invar q \<Longrightarrow> contents q = [] \<Longrightarrow> pop q = Inr (None, q)"
    and pop_item: "invar q \<Longrightarrow> contents q = x # xs \<Longrightarrow>
      \<exists>q'. pop q = Inr (x, q') \<and> invar q' \<and> contents q' = xs \<and> capacity q' = capacity q"
begin

lemma push_result:
  assumes "invar q"
  shows "\<exists>q'. push q x = Inr (length (contents q) < capacity q, q') \<and> invar q'
    \<and> contents q' = contents q @ (if length (contents q) < capacity q then [x] else [])
    \<and> capacity q' = capacity q"
  using push_room [OF assms, of x] push_full [OF assms, of x] within_capacity [OF assms] assms
  by (cases "length (contents q) < capacity q") auto

lemma run_op_refines:
  assumes "invar q"
  shows "\<exists>q'. run_op push pop op q = Inr (fst (spec_step (capacity q) op (contents q)), q')
    \<and> invar q' \<and> contents q' = snd (spec_step (capacity q) op (contents q))
    \<and> capacity q' = capacity q"
proof (cases op)
  case (Push x)
  then show ?thesis using push_result [OF assms, of x] by auto
next
  case Pop
  then show ?thesis
    using pop_empty [OF assms] pop_item [OF assms] assms by (cases "contents q") fastforce+
qed

lemma run_ops_refines:
  assumes "invar q"
  shows "\<exists>q'. run_ops push pop ops q = Inr (fst (spec_run (capacity q) ops (contents q)), q')
    \<and> invar q' \<and> contents q' = snd (spec_run (capacity q) ops (contents q))
    \<and> capacity q' = capacity q"
  using assms
proof (induction ops arbitrary: q)
  case Nil
  then show ?case by simp
next
  case (Cons op ops)
  obtain q1 where q1: "run_op push pop op q = Inr (fst (spec_step (capacity q) op (contents q)), q1)"
      "invar q1" "contents q1 = snd (spec_step (capacity q) op (contents q))" "capacity q1 = capacity q"
    using run_op_refines [OF Cons.prems] by blast
  show ?case
    using Cons.IH [OF q1(2)] q1 by (auto simp: split: prod.splits)
qed

text \<open>
  First in, first out: what was in the queue followed by what was accepted is what was
  delivered followed by what is left.
\<close>

lemma run_ops_fifo:
  assumes "invar q" and "None \<notin> set (contents q)" and "list_all non_null_op ops"
    and "run_ops push pop ops q = Inr (outs, q')"
  shows "contents q @ accepted ops outs = delivered outs @ contents q'"
proof -
  obtain xs where "spec_run (capacity q) ops (contents q) = (outs, xs)" and "contents q' = xs"
    using run_ops_refines [OF assms(1), of ops] assms(4) by (metis Inr_inject Pair_inject prod.collapse)
  then show ?thesis
    using spec_run_fifo assms(2,3) by blast
qed

end

end
