(* ===== verification/Spsc_Ring.thy ===== *)
theory Spsc_Ring
  imports Fifo_Interface
begin

text \<open>
  The ring buffer of \<open>src/spsc_ring.h\<close> and \<open>src/spsc_ring.c\<close>, operation by operation, with
  64-bit wrapping counters. \<open>spsc_ring_ok\<close> is the invariant of the header comment;
  \<open>ring_contents\<close> reads the queue out of the slot array. The ring is an instance of
  the contract \<open>bounded_fifo\<close>.
\<close>

section \<open>The structure and its operations\<close>

record 'a spsc_ring =
  slots :: "'a option list"
  ring_mask :: size_t
  head :: size_t
  tail :: size_t

definition spsc_ring_init :: "'a option list \<Rightarrow> size_t \<Rightarrow> 'a spsc_ring result" where
  "spsc_ring_init ring_slots capacity =
     guardR (capacity > 0 \<and> capacity AND (capacity - 1) = 0) AssertFailure
       (Inr \<lparr>slots = ring_slots, ring_mask = capacity - 1, head = 0, tail = 0\<rparr>)"

definition spsc_ring_push :: "'a spsc_ring \<Rightarrow> 'a option \<Rightarrow> (bool \<times> 'a spsc_ring) result" where
  "spsc_ring_push ring item =
     (let h = head ring; t = tail ring
      in if h - t \<ge> ring_mask ring + 1
         then Inr (False, ring)
         else guardR (unat (h AND ring_mask ring) < length (slots ring)) OutOfBounds
           (Inr (True, ring\<lparr>slots := (slots ring)[unat (h AND ring_mask ring) := item],
                            head := h + 1\<rparr>)))"

definition spsc_ring_pop :: "'a spsc_ring \<Rightarrow> ('a option \<times> 'a spsc_ring) result" where
  "spsc_ring_pop ring =
     (let t = tail ring; h = head ring
      in if t = h
         then Inr (None, ring)
         else guardR (unat (t AND ring_mask ring) < length (slots ring)) OutOfBounds
           (Inr (slots ring ! unat (t AND ring_mask ring), ring\<lparr>tail := t + 1\<rparr>)))"

definition spsc_ring_size :: "'a spsc_ring \<Rightarrow> size_t" where
  "spsc_ring_size ring = head ring - tail ring"

definition spsc_ring_empty :: "'a spsc_ring \<Rightarrow> bool" where
  "spsc_ring_empty ring = (spsc_ring_size ring = 0)"

section \<open>Masked indices\<close>

text \<open>With a mask \<open>2 ^ k - 1\<close> the index of a counter is its remainder modulo \<open>2 ^ k\<close>.\<close>

definition pow2_mask :: "size_t \<Rightarrow> nat \<Rightarrow> bool" where
  "pow2_mask m k \<longleftrightarrow> k < 64 \<and> m = 2 ^ k - 1"

lemma unat_and_mask:
  assumes "pow2_mask m k"
  shows "unat (w AND m) = unat w mod 2 ^ k"
proof -
  have "w AND m = take_bit k w"
    using assms by (simp add: pow2_mask_def take_bit_eq_mask mask_eq_exp_minus_1)
  then have "unat (w AND m) = take_bit k (unat w)"
    by (simp only: unsigned_take_bit_eq)
  then show ?thesis
    by (simp only: take_bit_eq_mod)
qed

lemma unat_pow2: "k < 64 \<Longrightarrow> unat (2 ^ k :: size_t) = 2 ^ k"
  using unsigned_of_nat [of "2 ^ k", where ?'b = 64 and ?'a = nat]
  by (simp add: take_bit_nat_eq_self)

lemma pow2_mask_Suc: "pow2_mask m k \<Longrightarrow> unat (m + 1) = 2 ^ k"
  by (simp add: pow2_mask_def unat_pow2)

text \<open>Counters wrap at \<open>2 ^ 64\<close>, a multiple of the capacity, so indices are those of the unbounded counters.\<close>

lemma mod_pow2_64: 
  assumes "k < 64" 
  shows "(n mod 2 ^ 64) mod 2 ^ k = n mod (2 ^ k :: nat)"
  by (rule mod_mod_cancel) (use assms in \<open>simp only: le_imp_power_dvd\<close>)

lemma unat_add_of_nat: "unat (w + of_nat i :: size_t) = (unat w + i) mod 2 ^ 64"
  by (simp add: unat_word_ariths unsigned_of_nat take_bit_eq_mod mod_simps)

lemma index_add:
  assumes "pow2_mask m k"
  shows "unat ((w + of_nat i) AND m) = (unat w + i) mod 2 ^ k"
proof -
  have "k < 64" using assms by (simp add: pow2_mask_def)
  then show ?thesis
    unfolding unat_and_mask [OF assms] unat_add_of_nat by (rule mod_pow2_64)
qed

text \<open>Two counters less than a capacity apart have different indices.\<close>

lemma index_distinct:
  fixes a i j c :: nat
  assumes "i < c" and "j < c" and "(a + i) mod c = (a + j) mod c"
  shows "i = j"
proof -
  have "i mod c = j mod c"
    using assms(3) by (simp add: nat_mod_eq_iff)
  then show ?thesis using assms(1,2) by simp
qed

section \<open>Powers of two, as the assertion of the initialiser tests them\<close>

lemma nat_and_pred_zero: "0 < (n::nat) \<Longrightarrow> n AND (n - 1) = 0 \<Longrightarrow> \<exists>k. n = 2 ^ k"
proof (induction n rule: less_induct)
  case (less n)
  show ?case
  proof (cases "even n")
    case True
    then obtain m where m: "n = 2 * m" by (elim evenE)
    with less.prems have "0 < m" by simp
    have "n AND (n - 1) = 2 * (m AND (m - 1))"
      using \<open>0 < m\<close> m by (subst and_rec) (cases m, simp_all)
    with less.prems have "m AND (m - 1) = 0" by simp
    with less.IH [of m] \<open>0 < m\<close> m obtain k where "m = 2 ^ k" by auto
    with m have "n = 2 ^ Suc k" by simp
    then show ?thesis by blast
  next
    case False
    then obtain m where m: "n = 2 * m + 1" by (elim oddE)
    have "n AND (n - 1) = 2 * m" by (subst and_rec) (simp add: m)
    with less.prems m have "n = 2 ^ 0" by simp
    then show ?thesis by blast
  qed
qed

lemma power_of_two_test:
  assumes "c > (0 :: size_t)" and "c AND (c - 1) = 0"
  shows "\<exists>k. pow2_mask (c - 1) k \<and> c = 2 ^ k"
proof -
  have pos: "0 < unat c" using assms(1) by (simp add: word_greater_zero_iff unat_gt_0)
  have "unat (c - 1) = unat c - 1"
    using assms(1) by (simp add: unat_minus_one)
  then have "unat c AND (unat c - 1) = 0"
    using assms(2) by (metis unsigned_and_eq unsigned_0)
  then obtain k where k: "unat c = 2 ^ k"
    using nat_and_pred_zero [OF pos] by blast
  have "unat c < 2 ^ 64" using unsigned_less [of c, where ?'a = nat] by simp
  then have "k < 64" by (simp only: k power_strict_increasing_iff)
  moreover from this have "c = 2 ^ k"
    using k unat_pow2 by (metis unsigned_word_eqI)
  ultimately show ?thesis by (auto simp: pow2_mask_def)
qed

section \<open>The invariant and the contents\<close>

text \<open>
  The invariant of the header comment (\<open>tail <= head <= tail + capacity\<close> on wrapping counters,
  that is \<open>head - tail <= capacity\<close>), the power-of-two capacity asserted at initialisation and
  a slot array that covers it.
\<close>

definition ring_capacity :: "'a spsc_ring \<Rightarrow> nat" where
  "ring_capacity ring = unat (ring_mask ring + 1)"

definition spsc_ring_ok :: "'a spsc_ring \<Rightarrow> bool" where
  "spsc_ring_ok ring \<longleftrightarrow>
     ring_mask ring + 1 > 0 \<and> (ring_mask ring + 1) AND ring_mask ring = 0 \<and>
     ring_capacity ring \<le> length (slots ring) \<and>
     head ring - tail ring \<le> ring_mask ring + 1"

definition ring_contents :: "'a spsc_ring \<Rightarrow> 'a option list" where
  "ring_contents ring =
     map (\<lambda>i. slots ring ! unat ((tail ring + of_nat i) AND ring_mask ring))
         [0..<unat (head ring - tail ring)]"

lemma length_ring_contents: "length (ring_contents ring) = unat (head ring - tail ring)"
  by (simp add: ring_contents_def)

lemma spsc_ring_ok_mask:
  assumes "spsc_ring_ok ring"
  obtains k where "pow2_mask (ring_mask ring) k" and "ring_capacity ring = 2 ^ k"
proof -
  have "\<exists>k. pow2_mask (ring_mask ring + 1 - 1) k \<and> ring_mask ring + 1 = 2 ^ k"
    using assms by (intro power_of_two_test) (simp_all add: spsc_ring_ok_def)
  then obtain k where "pow2_mask (ring_mask ring) k" by auto
  then show thesis
    by (intro that) (simp_all add: ring_capacity_def pow2_mask_Suc)
qed

lemma ring_contents_nth_masked:
  "i < unat (head ring - tail ring) \<Longrightarrow>
   ring_contents ring ! i = slots ring ! unat ((tail ring + of_nat i) AND ring_mask ring)"
  by (simp add: ring_contents_def)

lemma ring_contents_nth:
  assumes "pow2_mask (ring_mask ring) k" and "i < unat (head ring - tail ring)"
  shows "ring_contents ring ! i = slots ring ! ((unat (tail ring) + i) mod 2 ^ k)"
  using assms by (simp add: ring_contents_def index_add)

lemma spsc_ring_ok_length:
  "spsc_ring_ok ring \<Longrightarrow> length (ring_contents ring) \<le> ring_capacity ring"
  by (simp add: length_ring_contents spsc_ring_ok_def ring_capacity_def word_le_nat_alt)

text \<open>The masked index of either counter lies in the slot array.\<close>

lemma ring_index_less:
  assumes "spsc_ring_ok ring"
  shows "unat (w AND ring_mask ring) < length (slots ring)"
proof -
  obtain k where k: "pow2_mask (ring_mask ring) k" "ring_capacity ring = 2 ^ k"
    by (rule spsc_ring_ok_mask [OF assms])
  have "unat (w AND ring_mask ring) < 2 ^ k"
    by (simp add: unat_and_mask [OF k(1)])
  also have "\<dots> \<le> length (slots ring)"
    using assms k(2) by (simp add: spsc_ring_ok_def)
  finally show ?thesis .
qed

section \<open>Each operation against the contents\<close>

lemma head_is_tail_plus: "head ring = tail ring + of_nat (length (ring_contents ring))"
  by (simp add: length_ring_contents)

lemma spsc_ring_init_ok:
  assumes "spsc_ring_init ss c = Inr ring" and "unat c \<le> length ss"
  shows "spsc_ring_ok ring \<and> ring_contents ring = [] \<and> ring_capacity ring = unat c"
  using assms
  by (auto simp: spsc_ring_init_def guardR_eq_Inr_iff spsc_ring_ok_def ring_contents_def
      ring_capacity_def)

text \<open>A store behind the last item, published by the new head.\<close>

lemma ring_contents_store:
  assumes ok: "spsc_ring_ok ring" and k: "pow2_mask (ring_mask ring) k" and n: "unat (head ring - tail ring) < 2 ^ k"
    and ring': "ring' = ring\<lparr>slots := (slots ring)[unat (head ring AND ring_mask ring) := x], head := head ring + 1\<rparr>"
    and grown: "unat (head ring' - tail ring') = Suc (unat (head ring - tail ring))"
  shows "ring_contents ring' = ring_contents ring @ [x]"
proof (rule nth_equalityI)
  define n where "n = unat (head ring - tail ring)"
  let ?idx = "unat (head ring AND ring_mask ring)"
  have "head ring = tail ring + of_nat n" by (simp add: n_def)
  then have idx: "?idx = (unat (tail ring) + n) mod 2 ^ k" by (simp only: index_add [OF k])
  show "length (ring_contents ring') = length (ring_contents ring @ [x])"
    using grown by (simp add: length_ring_contents)
  fix i assume "i < length (ring_contents ring')"
  then have i: "i < n + 1" by (simp add: length_ring_contents grown n_def)
  have nth: "ring_contents ring' ! i = slots ring' ! ((unat (tail ring) + i) mod 2 ^ k)"
    using ring_contents_nth [of ring' k i] k i grown by (simp add: ring' n_def)
  show "ring_contents ring' ! i = (ring_contents ring @ [x]) ! i"
  proof (cases "i = n")
    case True
    then show ?thesis
      using nth idx ring_index_less [OF ok, of "head ring"] by (simp add: ring' nth_append length_ring_contents n_def)
  next
    case False
    with i have "i < n" by simp
    then have "(unat (tail ring) + i) mod 2 ^ k \<noteq> ?idx"
      using index_distinct [of i "2 ^ k" n] n idx by (auto simp: n_def)
    with \<open>i < n\<close> nth ring_contents_nth [OF k, of i] show ?thesis
      by (simp add: ring' nth_append length_ring_contents n_def)
  qed
qed

lemma spsc_ring_push_room:
  assumes ok: "spsc_ring_ok ring" and room: "length (ring_contents ring) < ring_capacity ring"
  shows "\<exists>ring'. spsc_ring_push ring x = Inr (True, ring') \<and> spsc_ring_ok ring'
    \<and> ring_contents ring' = ring_contents ring @ [x] \<and> ring_capacity ring' = ring_capacity ring"
proof -
  obtain k where k: "pow2_mask (ring_mask ring) k" "ring_capacity ring = 2 ^ k"
    by (rule spsc_ring_ok_mask [OF ok])
  define n where "n = unat (head ring - tail ring)"
  have n: "n < 2 ^ k" using room k(2) by (simp add: length_ring_contents n_def)
  have k64: "k < 64" using k(1) by (simp add: pow2_mask_def)
  have n64: "n + 1 < 2 ^ 64"
    using n power_strict_increasing [OF k64, of "2::nat"] by linarith
  define ring' where "ring' = ring\<lparr>slots := (slots ring)[unat (head ring AND ring_mask ring) := x], head := head ring + 1\<rparr>"
  have not_full: "\<not> ring_mask ring + 1 \<le> head ring - tail ring"
    using room by (simp add: length_ring_contents ring_capacity_def word_le_nat_alt)
  have push: "spsc_ring_push ring x = Inr (True, ring')"
    using not_full ring_index_less [OF ok] by (simp add: spsc_ring_push_def Let_def ring'_def)
  have diff: "head ring' - tail ring' = of_nat (n + 1)"
    by (simp add: ring'_def n_def algebra_simps)
  have unat_diff: "unat (head ring' - tail ring') = n + 1"
    unfolding diff using n64 by (subst unsigned_of_nat) (simp add: take_bit_nat_eq_self)
  have contents: "ring_contents ring' = ring_contents ring @ [x]"
    using ring_contents_store [OF ok k(1) _ ring'_def] n unat_diff by (simp add: n_def)
  have "spsc_ring_ok ring'"
    using ok n k unat_diff
    by (simp add: spsc_ring_ok_def ring_capacity_def word_le_nat_alt ring'_def)
  with push contents show ?thesis
    by (auto simp: ring'_def ring_capacity_def)
qed

lemma spsc_ring_push_full:
  assumes "spsc_ring_ok ring" and "length (ring_contents ring) = ring_capacity ring"
  shows "spsc_ring_push ring x = Inr (False, ring)"
  using assms
  by (simp add: spsc_ring_push_def Let_def length_ring_contents ring_capacity_def word_le_nat_alt)

lemma spsc_ring_pop_empty:
  assumes "ring_contents ring = []"
  shows "spsc_ring_pop ring = Inr (None, ring)"
proof -
  have "head ring = tail ring"
    using head_is_tail_plus [of ring] assms by simp
  then show ?thesis by (simp add: spsc_ring_pop_def)
qed

lemma spsc_ring_pop_item:
  assumes ok: "spsc_ring_ok ring" and xs: "ring_contents ring = x # xs"
  shows "\<exists>ring'. spsc_ring_pop ring = Inr (x, ring') \<and> spsc_ring_ok ring'
    \<and> ring_contents ring' = xs \<and> ring_capacity ring' = ring_capacity ring"
proof -
  obtain k where k: "pow2_mask (ring_mask ring) k" "ring_capacity ring = 2 ^ k"
    by (rule spsc_ring_ok_mask [OF ok])
  define n where "n = unat (head ring - tail ring)"
  have n: "n = Suc (length xs)" using xs length_ring_contents [of ring] by (simp add: n_def)
  have ne: "head ring \<noteq> tail ring" using n by (auto simp: n_def)
  define ring' where "ring' = ring\<lparr>tail := tail ring + 1\<rparr>"
  have item: "slots ring ! unat (tail ring AND ring_mask ring) = x"
    using ring_contents_nth [OF k(1), of 0] n xs by (simp add: n_def unat_and_mask [OF k(1)])
  have pop: "spsc_ring_pop ring = Inr (x, ring')"
    using ne item ring_index_less [OF ok] by (auto simp: spsc_ring_pop_def Let_def ring'_def)
  have "head ring' - tail ring' = head ring - tail ring - 1"
    by (simp add: ring'_def)
  then have unat_diff: "unat (head ring' - tail ring') = length xs"
    using n ne by (simp add: unat_minus_one n_def)
  have contents: "ring_contents ring' = xs"
  proof (rule nth_equalityI)
    show "length (ring_contents ring') = length xs"
      by (simp add: length_ring_contents unat_diff)
  next
    fix i assume "i < length (ring_contents ring')"
    then have i: "i < length xs" by (simp add: length_ring_contents unat_diff)
    have "ring_contents ring' ! i = slots ring ! unat ((tail ring + of_nat (Suc i)) AND ring_mask ring)"
      using ring_contents_nth_masked [of i ring'] i unat_diff by (simp add: ring'_def add.assoc)
    also have "\<dots> = ring_contents ring ! Suc i"
      using i n by (simp only: ring_contents_nth_masked n_def)
    finally show "ring_contents ring' ! i = xs ! i" by (simp add: xs)
  qed
  have "spsc_ring_ok ring'"
    using ok n unat_diff spsc_ring_ok_length [OF ok] xs
    by (simp add: spsc_ring_ok_def ring_capacity_def word_le_nat_alt ring'_def)
  with pop contents show ?thesis
    by (auto simp: ring'_def ring_capacity_def)
qed

lemma spsc_ring_size_contents:
  "unat (spsc_ring_size ring) = length (ring_contents ring)"
  by (simp add: spsc_ring_size_def length_ring_contents)

lemma spsc_ring_empty_contents:
  "spsc_ring_empty ring \<longleftrightarrow> ring_contents ring = []"
  by (simp add: spsc_ring_empty_def flip: length_0_conv spsc_ring_size_contents)
    (simp add: unat_0_iff)

section \<open>The ring provides the contract\<close>

interpretation ring: bounded_fifo spsc_ring_push spsc_ring_pop ring_contents ring_capacity spsc_ring_ok
  by unfold_locales
    (simp_all add: spsc_ring_ok_length spsc_ring_push_room spsc_ring_push_full
      spsc_ring_pop_empty spsc_ring_pop_item)

section \<open>Properties\<close>

text \<open>
  C1. From initialisation on, the ring answers every sequence of pushes and pops exactly as
  a first-in first-out queue bounded by the capacity: pushes succeed while there is room,
  pops return the oldest item or \<open>NULL\<close>, and no access leaves the slot array.
\<close>

theorem spsc_ring_refines_fifo:
  assumes "spsc_ring_init ss c = Inr ring" and "unat c \<le> length ss"
  shows "\<exists>ring'. run_ops spsc_ring_push spsc_ring_pop ops ring = Inr (fst (spec_run (unat c) ops []), ring')
    \<and> spsc_ring_ok ring' \<and> ring_contents ring' = snd (spec_run (unat c) ops [])
    \<and> unat (spsc_ring_size ring') = length (snd (spec_run (unat c) ops []))"
  using spsc_ring_init_ok [OF assms] ring.run_ops_refines [of ring ops]
  by (auto simp: spsc_ring_size_contents)

theorem spsc_ring_refines_fifo_witness:
  "\<exists>ring ring'. spsc_ring_init [None, None] 2 = Inr ring \<and>
     run_ops spsc_ring_push spsc_ring_pop
       [Pop, Push (Some 1), Push (Some 2), Push (Some 3), Pop, Push (Some 4), Pop, Pop, Pop] ring =
     Inr ([Popped None, Pushed True, Pushed True, Pushed False, Popped (Some (1::nat)), Pushed True,
           Popped (Some 2), Popped (Some 4), Popped None], ring')"
proof -
  let ?ops = "[Pop, Push (Some 1), Push (Some 2), Push (Some 3), Pop, Push (Some 4), Pop, Pop,
    Pop :: nat fifo_op]"
  have i: "spsc_ring_init [None, None] 2 =
      Inr \<lparr>slots = [None, None :: nat option], ring_mask = 1, head = 0, tail = 0\<rparr>"
    by (simp add: spsc_ring_init_def)
  show ?thesis
    using i spsc_ring_refines_fifo [OF i, of ?ops] by auto
qed

text \<open>
  What the ring answers depends on its contents and capacity only: two rings that hold
  the same items answer every sequence of operations alike, wherever their counters stand
  and whether or not the counters wrap around \<open>2 ^ 64\<close> on the way.
\<close>

lemma spsc_ring_wraparound:
  assumes "spsc_ring_ok r1" and "spsc_ring_ok r2"
    and "ring_contents r1 = ring_contents r2" and "ring_capacity r1 = ring_capacity r2"
  shows "\<exists>outs r1' r2'. run_ops spsc_ring_push spsc_ring_pop ops r1 = Inr (outs, r1')
    \<and> run_ops spsc_ring_push spsc_ring_pop ops r2 = Inr (outs, r2')
    \<and> ring_contents r1' = ring_contents r2'"
  using ring.run_ops_refines [OF assms(1), of ops] ring.run_ops_refines [OF assms(2), of ops] assms(3,4)
  by auto

end
