(* ===== verification/Spsc_Concurrent.thy ===== *)
theory Spsc_Concurrent
  imports Spsc_Ring
begin

text \<open>
  The ring of \<open>src/spsc_ring.c\<close> run by its two threads. The producer's \<open>spsc_ring_push\<close> and the
  consumer's \<open>spsc_ring_pop\<close> are cut at every access to shared memory, and the accesses of
  the two threads interleave in any order. A thread's load of its own counter is exact (it is
  the only writer); an acquire load of the other thread's counter may return an old value,
  but never one older than the thread has already seen. The items whose push has been
  released and the items whose pop has been released are recorded in \<open>pushed\<close> and \<open>popped\<close>.
\<close>

section \<open>The two threads\<close>

text \<open>The producer: between calls, after the load of \<open>head\<close>, after the load of \<open>tail\<close>, after the store to the slot.\<close>

datatype 'a producer =
    P_idle
  | P_head "'a option" size_t
  | P_both "'a option" size_t size_t
  | P_stored "'a option" size_t

text \<open>The consumer: between calls, after the load of \<open>tail\<close>, after the load of \<open>head\<close>, after the read of the slot.\<close>

datatype 'a consumer =
    C_idle
  | C_tail size_t
  | C_both size_t size_t
  | C_read "'a option" size_t

record 'a spsc_sys =
  shm :: "'a spsc_ring"
  producer :: "'a producer"
  consumer :: "'a consumer"
  p_seen :: nat
  c_seen :: nat
  pushed :: "'a option list"
  popped :: "'a option list"

inductive p_step :: "'a spsc_sys \<Rightarrow> 'a spsc_sys \<Rightarrow> bool" where
  p_load_head: "producer s = P_idle \<Longrightarrow>
    p_step s (s\<lparr>producer := P_head item (head (shm s))\<rparr>)"
| p_load_tail: "producer s = P_head item h \<Longrightarrow> p_seen s \<le> n \<Longrightarrow> n \<le> length (popped s) \<Longrightarrow>
    p_step s (s\<lparr>producer := P_both item h (of_nat n), p_seen := n\<rparr>)"
| p_full: "producer s = P_both item h t \<Longrightarrow> h - t \<ge> ring_mask (shm s) + 1 \<Longrightarrow>
    p_step s (s\<lparr>producer := P_idle\<rparr>)"
| p_store: "producer s = P_both item h t \<Longrightarrow> \<not> h - t \<ge> ring_mask (shm s) + 1 \<Longrightarrow>
    p_step s (s\<lparr>producer := P_stored item h,
      shm := (shm s)\<lparr>slots := (slots (shm s))[unat (h AND ring_mask (shm s)) := item]\<rparr>\<rparr>)"
| p_release: "producer s = P_stored item h \<Longrightarrow>
    p_step s (s\<lparr>producer := P_idle, shm := (shm s)\<lparr>head := h + 1\<rparr>, pushed := pushed s @ [item]\<rparr>)"

inductive c_step :: "'a spsc_sys \<Rightarrow> 'a spsc_sys \<Rightarrow> bool" where
  c_load_tail: "consumer s = C_idle \<Longrightarrow>
    c_step s (s\<lparr>consumer := C_tail (tail (shm s))\<rparr>)"
| c_load_head: "consumer s = C_tail t \<Longrightarrow> c_seen s \<le> n \<Longrightarrow> n \<le> length (pushed s) \<Longrightarrow>
    c_step s (s\<lparr>consumer := C_both t (of_nat n), c_seen := n\<rparr>)"
| c_empty: "consumer s = C_both t h \<Longrightarrow> t = h \<Longrightarrow>
    c_step s (s\<lparr>consumer := C_idle\<rparr>)"
| c_read: "consumer s = C_both t h \<Longrightarrow> t \<noteq> h \<Longrightarrow>
    c_step s (s\<lparr>consumer := C_read (slots (shm s) ! unat (t AND ring_mask (shm s))) t\<rparr>)"
| c_release: "consumer s = C_read item t \<Longrightarrow>
    c_step s (s\<lparr>consumer := C_idle, shm := (shm s)\<lparr>tail := t + 1\<rparr>, popped := popped s @ [item]\<rparr>)"

definition spsc_start :: "'a spsc_ring \<Rightarrow> 'a spsc_sys" where
  "spsc_start ring = \<lparr>shm = ring, producer = P_idle, consumer = C_idle,
     p_seen = 0, c_seen = 0, pushed = [], popped = []\<rparr>"

text \<open>Every state of a run in which each thread makes steps in any order.\<close>

inductive spsc_reach :: "'a spsc_ring \<Rightarrow> 'a spsc_sys \<Rightarrow> bool" for ring where
  start: "spsc_reach ring (spsc_start ring)"
| produce: "spsc_reach ring s \<Longrightarrow> p_step s s' \<Longrightarrow> spsc_reach ring s'"
| consume: "spsc_reach ring s \<Longrightarrow> c_step s s' \<Longrightarrow> spsc_reach ring s'"

section \<open>The invariant\<close>

definition p_pc_ok :: "nat \<Rightarrow> 'a spsc_sys \<Rightarrow> bool" where
  "p_pc_ok k s \<longleftrightarrow> (let H = length (pushed s) in case producer s of
      P_idle \<Rightarrow> True
    | P_head item h \<Rightarrow> h = of_nat H
    | P_both item h t \<Rightarrow> h = of_nat H \<and> t = of_nat (p_seen s)
    | P_stored item h \<Rightarrow> h = of_nat H \<and> H < p_seen s + 2 ^ k
        \<and> slots (shm s) ! (H mod 2 ^ k) = item)"

definition c_pc_ok :: "'a spsc_sys \<Rightarrow> bool" where
  "c_pc_ok s \<longleftrightarrow> (let T = length (popped s) in case consumer s of
      C_idle \<Rightarrow> True
    | C_tail t \<Rightarrow> t = of_nat T
    | C_both t h \<Rightarrow> t = of_nat T \<and> h = of_nat (c_seen s)
    | C_read item t \<Rightarrow> t = of_nat T \<and> T < c_seen s \<and> item = pushed s ! T)"

definition shm_ok :: "nat \<Rightarrow> 'a spsc_sys \<Rightarrow> bool" where
  "shm_ok k s \<longleftrightarrow>
     pow2_mask (ring_mask (shm s)) k \<and> 2 ^ k \<le> length (slots (shm s)) \<and>
     head (shm s) = of_nat (length (pushed s)) \<and> tail (shm s) = of_nat (length (popped s)) \<and>
     (\<forall>i. length (popped s) \<le> i \<and> i < length (pushed s) \<longrightarrow>
        slots (shm s) ! (i mod 2 ^ k) = pushed s ! i)"

definition counts_ok :: "nat \<Rightarrow> 'a spsc_sys \<Rightarrow> bool" where
  "counts_ok k s \<longleftrightarrow>
     p_seen s \<le> length (popped s) \<and> length (popped s) \<le> c_seen s \<and>
     c_seen s \<le> length (pushed s) \<and> length (pushed s) \<le> p_seen s + 2 ^ k \<and>
     popped s = take (length (popped s)) (pushed s)"

definition spsc_inv :: "nat \<Rightarrow> 'a spsc_sys \<Rightarrow> bool" where
  "spsc_inv k s \<longleftrightarrow> shm_ok k s \<and> counts_ok k s \<and> p_pc_ok k s \<and> c_pc_ok s"

lemmas spsc_inv_defs = spsc_inv_def shm_ok_def counts_ok_def p_pc_ok_def c_pc_ok_def

text \<open>Differences of wrapped counters are exact while they stay below \<open>2 ^ 64\<close>.\<close>

lemma unat_counter_diff:
  assumes "a \<le> b" and "b - a < 2 ^ 64"
  shows "unat (of_nat b - of_nat a :: size_t) = b - a"
proof -
  have "(of_nat b - of_nat a :: size_t) = of_nat (b - a)"
    using assms(1) by (simp add: of_nat_diff)
  then show ?thesis
    using assms(2) by (simp add: unsigned_of_nat take_bit_nat_eq_self)
qed

lemma pow2_less_64: "pow2_mask m k \<Longrightarrow> (2::nat) ^ k < 2 ^ 64"
  unfolding pow2_mask_def by (rule power_strict_increasing) simp_all

lemma counter_full_iff:
  assumes "pow2_mask m k" and "a \<le> b" and "b \<le> a + 2 ^ k"
  shows "of_nat b - of_nat a \<ge> m + 1 \<longleftrightarrow> b = a + 2 ^ k"
proof -
  have "b - a < 2 ^ 64" using assms(3) pow2_less_64 [OF assms(1)] by linarith
  then have "unat (of_nat b - of_nat a :: size_t) = b - a"
    using assms(2) by (rule unat_counter_diff [rotated])
  then show ?thesis
    using assms by (simp add: word_le_nat_alt pow2_mask_Suc) linarith
qed

lemma counter_eq_iff:
  assumes "pow2_mask m k" and "a \<le> b" and "b \<le> a + 2 ^ k"
  shows "(of_nat a :: size_t) = of_nat b \<longleftrightarrow> a = b"
proof -
  have "b - a < 2 ^ 64" using assms(3) pow2_less_64 [OF assms(1)] by linarith
  from unat_counter_diff [OF assms(2) this] show ?thesis
    using assms(2) by auto
qed

lemma index_of_nat:
  assumes "pow2_mask m k"
  shows "unat ((of_nat n :: size_t) AND m) = n mod 2 ^ k"
  using index_add [OF assms, of 0 n] by simp

lemma slot_distinct:
  fixes i j :: nat
  assumes "i < j" and "j < i + 2 ^ k"
  shows "i mod 2 ^ k \<noteq> j mod 2 ^ k"
proof
  assume eq: "i mod 2 ^ k = j mod 2 ^ k"
  have "j - i < 2 ^ k" using assms by linarith
  then have "0 = j - i"
    using index_distinct [of 0 "2 ^ k" "j - i" i] assms(1) eq by simp
  with assms(1) show False by simp
qed

section \<open>Every step keeps it\<close>

lemma spsc_inv_start:
  assumes "spsc_ring_init ss c = Inr ring" and "unat c \<le> length ss"
  shows "\<exists>k. unat c = 2 ^ k \<and> spsc_inv k (spsc_start ring)"
proof -
  have "spsc_ring_ok ring" and cap: "ring_capacity ring = unat c"
    using spsc_ring_init_ok [OF assms] by auto
  then obtain k where k: "pow2_mask (ring_mask ring) k" "ring_capacity ring = 2 ^ k"
    by (elim spsc_ring_ok_mask)
  have "2 ^ k \<le> length (slots ring)"
    using \<open>spsc_ring_ok ring\<close> k(2) by (simp add: spsc_ring_ok_def)
  then have "spsc_inv k (spsc_start ring)"
    using assms k(1)
    by (auto simp: spsc_inv_defs spsc_start_def spsc_ring_init_def guardR_eq_Inr_iff)
  then show ?thesis using cap k(2) by metis
qed

lemma p_store_inv:
  assumes inv: "spsc_inv k s" and pc: "producer s = P_both item h t"
    and room: "\<not> h - t \<ge> ring_mask (shm s) + 1"
  shows "spsc_inv k (s\<lparr>producer := P_stored item h,
      shm := (shm s)\<lparr>slots := (slots (shm s))[unat (h AND ring_mask (shm s)) := item]\<rparr>\<rparr>)"
proof -
  let ?H = "length (pushed s)" and ?T = "length (popped s)"
  have m: "pow2_mask (ring_mask (shm s)) k" and len: "2 ^ k \<le> length (slots (shm s))"
    using inv by (auto simp: spsc_inv_def shm_ok_def)
  have h: "h = of_nat ?H" and t: "t = of_nat (p_seen s)"
    using inv pc by (auto simp: spsc_inv_def p_pc_ok_def)
  have cnt: "p_seen s \<le> ?T" "?T \<le> ?H" "?H \<le> p_seen s + 2 ^ k"
    using inv by (auto simp: spsc_inv_def counts_ok_def)
  have H: "?H < p_seen s + 2 ^ k"
    using room counter_full_iff [OF m, of "p_seen s" ?H] cnt h t by auto
  have idx: "unat (h AND ring_mask (shm s)) = ?H mod 2 ^ k"
    by (simp add: h index_of_nat [OF m])
  have less: "?H mod 2 ^ k < length (slots (shm s))"
    using len by (meson mod_less_divisor order_less_le_trans zero_less_numeral zero_less_power)
  have other: "i mod 2 ^ k \<noteq> ?H mod 2 ^ k" if "?T \<le> i" "i < ?H" for i
    using slot_distinct [of i ?H k] that H cnt(1) by linarith
  show ?thesis
    using inv h H less unfolding spsc_inv_defs idx
    by (auto simp: nth_list_update Let_def dest: other split: consumer.splits)
qed

lemma p_release_inv:
  assumes inv: "spsc_inv k s" and pc: "producer s = P_stored item h"
  shows "spsc_inv k (s\<lparr>producer := P_idle, shm := (shm s)\<lparr>head := h + 1\<rparr>, pushed := pushed s @ [item]\<rparr>)"
proof -
  let ?H = "length (pushed s)"
  have "h = of_nat ?H" "?H < p_seen s + 2 ^ k" "slots (shm s) ! (?H mod 2 ^ k) = item"
    using inv pc by (auto simp: spsc_inv_def p_pc_ok_def Let_def)
  then show ?thesis
    using inv unfolding spsc_inv_defs
    by (auto simp: Let_def nth_append less_Suc_eq split: consumer.splits)
qed

lemma p_step_inv: "p_step s s' \<Longrightarrow> spsc_inv k s \<Longrightarrow> spsc_inv k s'"
proof (induction rule: p_step.induct)
  case (p_store s item h t)
  then show ?case by (intro p_store_inv)
next
  case (p_release s item h)
  then show ?case by (intro p_release_inv)
qed (auto simp: spsc_inv_defs Let_def split: consumer.splits)

lemma c_read_inv:
  assumes inv: "spsc_inv k s" and pc: "consumer s = C_both t h" and ne: "t \<noteq> h"
  shows "spsc_inv k (s\<lparr>consumer := C_read (slots (shm s) ! unat (t AND ring_mask (shm s))) t\<rparr>)"
proof -
  let ?T = "length (popped s)"
  have m: "pow2_mask (ring_mask (shm s)) k"
    using inv by (auto simp: spsc_inv_def shm_ok_def)
  have t: "t = of_nat ?T" and "h = of_nat (c_seen s)"
    using inv pc by (auto simp: spsc_inv_def c_pc_ok_def)
  then have "?T < c_seen s"
    using ne inv by (auto simp: spsc_inv_def counts_ok_def order_less_le)
  then show ?thesis
    using inv t unfolding spsc_inv_defs
    by (auto simp: Let_def index_of_nat [OF m] split: producer.splits)
qed

lemma c_release_inv:
  assumes inv: "spsc_inv k s" and pc: "consumer s = C_read item t"
  shows "spsc_inv k (s\<lparr>consumer := C_idle, shm := (shm s)\<lparr>tail := t + 1\<rparr>, popped := popped s @ [item]\<rparr>)"
proof -
  let ?T = "length (popped s)"
  have "t = of_nat ?T" "?T < c_seen s" "item = pushed s ! ?T"
    using inv pc by (auto simp: spsc_inv_def c_pc_ok_def Let_def)
  moreover have "?T < length (pushed s)"
    using inv calculation by (auto simp: spsc_inv_def counts_ok_def)
  ultimately show ?thesis
    using inv unfolding spsc_inv_defs
    by (auto simp: Let_def take_Suc_conv_app_nth split: producer.splits)
qed

lemma c_step_inv: "c_step s s' \<Longrightarrow> spsc_inv k s \<Longrightarrow> spsc_inv k s'"
proof (induction rule: c_step.induct)
  case (c_read s t h)
  then show ?case by (intro c_read_inv)
next
  case (c_release s item t)
  then show ?case by (intro c_release_inv)
qed (auto simp: spsc_inv_defs Let_def split: producer.splits)

lemma spsc_reach_inv:
  "spsc_reach ring s \<Longrightarrow> spsc_inv k (spsc_start ring) \<Longrightarrow> spsc_inv k s"
  by (induction rule: spsc_reach.induct) (auto intro: p_step_inv c_step_inv)

section \<open>What the invariant gives\<close>

text \<open>In every reachable state the slots between the counters hold the released and not yet popped items.\<close>

lemma spsc_inv_contents:
  assumes "spsc_inv k s"
  shows "ring_contents (shm s) = drop (length (popped s)) (pushed s)"
proof (rule nth_equalityI)
  let ?H = "length (pushed s)" and ?T = "length (popped s)"
  have m: "pow2_mask (ring_mask (shm s)) k"
    and ht: "head (shm s) = of_nat ?H" "tail (shm s) = of_nat ?T"
    and slots: "\<And>i. ?T \<le> i \<Longrightarrow> i < ?H \<Longrightarrow> slots (shm s) ! (i mod 2 ^ k) = pushed s ! i"
    and cnt: "?T \<le> ?H" "?H \<le> ?T + 2 ^ k"
    using assms by (auto simp: spsc_inv_def shm_ok_def counts_ok_def)
  have "?H - ?T < 2 ^ 64" using cnt(2) pow2_less_64 [OF m] by linarith
  then have len: "unat (head (shm s) - tail (shm s)) = ?H - ?T"
    unfolding ht by (rule unat_counter_diff [OF cnt(1)])
  show "length (ring_contents (shm s)) = length (drop ?T (pushed s))"
    by (simp add: length_ring_contents len)
  fix i assume "i < length (ring_contents (shm s))"
  then have i: "i < ?H - ?T" by (simp add: length_ring_contents len)
  have "ring_contents (shm s) ! i = slots (shm s) ! unat (of_nat (?T + i) AND ring_mask (shm s))"
    using ring_contents_nth_masked [of i "shm s"] i len by (simp add: ht)
  also have "\<dots> = pushed s ! (?T + i)"
    using slots [of "?T + i"] i by (simp only: index_of_nat [OF m])
  finally show "ring_contents (shm s) ! i = drop ?T (pushed s) ! i"
    using i by simp
qed

text \<open>The slot a thread is about to access.\<close>

definition p_writes :: "'a spsc_sys \<Rightarrow> nat option" where
  "p_writes s = (case producer s of
     P_both item h t \<Rightarrow> if h - t \<ge> ring_mask (shm s) + 1 then None
                       else Some (unat (h AND ring_mask (shm s)))
   | _ \<Rightarrow> None)"

definition c_reads :: "'a spsc_sys \<Rightarrow> nat option" where
  "c_reads s = (case consumer s of
     C_both t h \<Rightarrow> if t = h then None else Some (unat (t AND ring_mask (shm s)))
   | _ \<Rightarrow> None)"

lemma spsc_inv_p_writes:
  assumes inv: "spsc_inv k s" and w: "p_writes s = Some i"
  shows "i = length (pushed s) mod 2 ^ k \<and> length (pushed s) < p_seen s + 2 ^ k"
proof -
  obtain item h t where pc: "producer s = P_both item h t"
    and room: "\<not> h - t \<ge> ring_mask (shm s) + 1" and i: "i = unat (h AND ring_mask (shm s))"
    using w by (auto simp: p_writes_def split: producer.splits if_splits)
  have m: "pow2_mask (ring_mask (shm s)) k"
    and ht: "h = of_nat (length (pushed s))" "t = of_nat (p_seen s)"
    using inv pc by (auto simp: spsc_inv_defs)
  then show ?thesis
    using counter_full_iff [OF m, of "p_seen s" "length (pushed s)"] room i inv
    by (auto simp: spsc_inv_def counts_ok_def index_of_nat [OF m])
qed

lemma spsc_inv_c_reads:
  assumes inv: "spsc_inv k s" and r: "c_reads s = Some i"
  shows "i = length (popped s) mod 2 ^ k \<and> length (popped s) < c_seen s"
proof -
  obtain t h where pc: "consumer s = C_both t h" and ne: "t \<noteq> h"
    and i: "i = unat (t AND ring_mask (shm s))"
    using r by (auto simp: c_reads_def split: consumer.splits if_splits)
  have m: "pow2_mask (ring_mask (shm s)) k"
    and "t = of_nat (length (popped s))" "h = of_nat (c_seen s)"
    using inv pc by (auto simp: spsc_inv_defs)
  then show ?thesis
    using ne i inv by (auto simp: spsc_inv_def counts_ok_def index_of_nat [OF m] order_less_le)
qed

lemma spsc_inv_race_free:
  assumes "spsc_inv k s" and "p_writes s = Some i" and "c_reads s = Some j"
  shows "i \<noteq> j"
  using spsc_inv_p_writes [OF assms(1,2)] spsc_inv_c_reads [OF assms(1,3)] assms(1)
    slot_distinct [of "length (popped s)" "length (pushed s)" k]
  by (auto simp: spsc_inv_def counts_ok_def)

text \<open>How many of its own steps a thread still needs to finish the call it is in.\<close>

fun p_rank :: "'a producer \<Rightarrow> nat" where
  "p_rank P_idle = 0"
| "p_rank (P_head item h) = 3"
| "p_rank (P_both item h t) = 2"
| "p_rank (P_stored item h) = 1"

fun c_rank :: "'a consumer \<Rightarrow> nat" where
  "c_rank C_idle = 0"
| "c_rank (C_tail t) = 3"
| "c_rank (C_both t h) = 2"
| "c_rank (C_read item t) = 1"

lemma p_step_rank:
  "p_step s s' \<Longrightarrow> producer s \<noteq> P_idle \<Longrightarrow> p_rank (producer s') < p_rank (producer s)"
  by (induction rule: p_step.induct) auto

lemma c_step_rank:
  "c_step s s' \<Longrightarrow> consumer s \<noteq> C_idle \<Longrightarrow> c_rank (consumer s') < c_rank (consumer s)"
  by (induction rule: c_step.induct) auto

lemma p_step_enabled:
  assumes "counts_ok k s"
  shows "\<exists>s'. p_step s s'"
proof (cases "producer s")
  case (P_head item h)
  then show ?thesis
    using p_load_tail [of s item h "p_seen s"] assms by (auto simp: counts_ok_def)
next
  case (P_both item h t)
  then show ?thesis using p_full p_store by blast
qed (blast intro: p_load_head p_release)+

lemma c_step_enabled:
  assumes "counts_ok k s"
  shows "\<exists>s'. c_step s s'"
proof (cases "consumer s")
  case (C_tail t)
  then show ?thesis
    using c_load_head [of s t "c_seen s"] assms by (auto simp: counts_ok_def)
next
  case (C_both t h)
  then show ?thesis using c_empty c_read by blast
qed (blast intro: c_load_tail c_release)+

text \<open>A call that no other step interrupts and that reads the current counter is the sequential operation.\<close>

lemma solo_push_is_spsc_ring_push:
  assumes inv: "spsc_inv k s" and idle: "producer s = P_idle"
    and ring': "spsc_ring_push (shm s) item = Inr (ok, ring')"
  shows "\<exists>s'. p_step\<^sup>*\<^sup>* s s' \<and> producer s' = P_idle \<and> shm s' = ring'
    \<and> pushed s' = pushed s @ (if ok then [item] else [])"
proof -
  define T where "T = length (popped s)"
  define s1 where "s1 = s\<lparr>producer := P_head item (head (shm s))\<rparr>"
  define s2 where "s2 = s1\<lparr>producer := P_both item (head (shm s)) (of_nat T), p_seen := T\<rparr>"
  have s1: "p_step s s1" unfolding s1_def by (rule p_load_head [OF idle])
  have s2: "p_step s1 s2" unfolding s2_def
    using inv by (intro p_load_tail) (auto simp: s1_def T_def spsc_inv_def counts_ok_def)
  have tail: "tail (shm s) = of_nat T" using inv by (simp add: T_def spsc_inv_def shm_ok_def)
  show ?thesis
  proof (cases "head (shm s) - of_nat T \<ge> ring_mask (shm s) + 1")
    case True
    have s3: "p_step s2 (s2\<lparr>producer := P_idle\<rparr>)"
      using True by (intro p_full) (auto simp: s1_def s2_def)
    have "p_step\<^sup>*\<^sup>* s (s2\<lparr>producer := P_idle\<rparr>)"
      by (rule converse_rtranclp_into_rtranclp [of p_step, OF s1] converse_rtranclp_into_rtranclp [of p_step, OF s2]
          r_into_rtranclp [of p_step, OF s3])+
    then show ?thesis
      using True ring' tail
      by (intro exI [of _ "s2\<lparr>producer := P_idle\<rparr>"]) (auto simp: spsc_ring_push_def s1_def s2_def)
  next
    case False
    define s3 where "s3 = s2\<lparr>producer := P_stored item (head (shm s)),
      shm := (shm s2)\<lparr>slots := (slots (shm s2))[unat (head (shm s) AND ring_mask (shm s2)) := item]\<rparr>\<rparr>"
    define s4 where "s4 = s3\<lparr>producer := P_idle, shm := (shm s3)\<lparr>head := head (shm s) + 1\<rparr>,
      pushed := pushed s3 @ [item]\<rparr>"
    have s3: "p_step s2 s3" unfolding s3_def
      using False by (intro p_store) (auto simp: s1_def s2_def)
    have s4: "p_step s3 s4" unfolding s4_def by (intro p_release) (simp add: s3_def)
    have "p_step\<^sup>*\<^sup>* s s4"
      by (rule converse_rtranclp_into_rtranclp [of p_step, OF s1] converse_rtranclp_into_rtranclp [of p_step, OF s2]
          converse_rtranclp_into_rtranclp [of p_step, OF s3] r_into_rtranclp [of p_step, OF s4])+
    then show ?thesis
      using False ring' tail
      by (intro exI [of _ s4])
        (auto simp: spsc_ring_push_def Let_def guardR_eq_Inr_iff s1_def s2_def s3_def s4_def)
  qed
qed

section \<open>Properties\<close>

text \<open>
  C2. In every interleaving of one producer and one consumer, with stale acquire loads
  allowed, what has been popped followed by what is in the ring is what has been pushed: no
  item is lost, repeated or reordered, and never more than the capacity is in the ring.
\<close>

theorem spsc_concurrent_fifo:
  assumes "spsc_ring_init ss c = Inr ring" and "unat c \<le> length ss" and "spsc_reach ring s"
  shows "popped s @ ring_contents (shm s) = pushed s \<and> length (ring_contents (shm s)) \<le> unat c"
proof -
  obtain k where k: "unat c = 2 ^ k" "spsc_inv k s"
    using spsc_inv_start [OF assms(1,2)] spsc_reach_inv [OF assms(3)] by blast
  then show ?thesis
    using spsc_inv_contents [OF k(2)]
    by (auto simp: spsc_inv_def counts_ok_def) (metis append_take_drop_id)
qed



section \<open>A run\<close>

text \<open>
  A ring of capacity two after one push, with the producer about to store its second item
  and the consumer about to read the first one.
\<close>

definition demo_ring :: "nat spsc_ring" where
  "demo_ring = \<lparr>slots = [None, None], ring_mask = 1, head = 0, tail = 0\<rparr>"

definition demo_state :: "nat spsc_sys" where
  "demo_state = \<lparr>shm = \<lparr>slots = [Some 7, None], ring_mask = 1, head = 1, tail = 0\<rparr>,
     producer = P_both (Some 8) 1 0, consumer = C_both 0 1, p_seen = 0, c_seen = 1,
     pushed = [Some 7], popped = []\<rparr>"

lemma demo_ring_init: "spsc_ring_init [None, None] 2 = Inr demo_ring"
  by (simp add: spsc_ring_init_def demo_ring_def)

lemma demo_state_reach: "spsc_reach demo_ring demo_state"
proof -
  let ?r1 = "\<lparr>slots = [Some 7, None], ring_mask = 1, head = 0, tail = 0\<rparr> :: nat spsc_ring"
  let ?r2 = "?r1\<lparr>head := 1\<rparr>"
  let ?s = "\<lambda>r p c ps cs pu. \<lparr>shm = r, producer = p, consumer = c, p_seen = ps, c_seen = cs,
     pushed = pu, popped = []\<rparr> :: nat spsc_sys"
  have 0: "spsc_reach demo_ring (?s demo_ring P_idle C_idle 0 0 [])"
    using spsc_reach.start [of demo_ring] by (simp add: spsc_start_def)
  have 1: "spsc_reach demo_ring (?s demo_ring (P_head (Some 7) 0) C_idle 0 0 [])"
    using produce [OF 0 p_load_head [of _ "Some 7"]] by (simp add: demo_ring_def)
  have 2: "spsc_reach demo_ring (?s demo_ring (P_both (Some 7) 0 0) C_idle 0 0 [])"
    using produce [OF 1 p_load_tail [of _ "Some 7" 0 0]] by simp
  have 3: "spsc_reach demo_ring (?s ?r1 (P_stored (Some 7) 0) C_idle 0 0 [])"
    using produce [OF 2 p_store [of _ "Some 7" 0 0]] by (simp add: demo_ring_def)
  have 4: "spsc_reach demo_ring (?s ?r2 P_idle C_idle 0 0 [Some 7])"
    using produce [OF 3 p_release [of _ "Some 7" 0]] by simp
  have 5: "spsc_reach demo_ring (?s ?r2 (P_head (Some 8) 1) C_idle 0 0 [Some 7])"
    using produce [OF 4 p_load_head [of _ "Some 8"]] by simp
  have 6: "spsc_reach demo_ring (?s ?r2 (P_both (Some 8) 1 0) C_idle 0 0 [Some 7])"
    using produce [OF 5 p_load_tail [of _ "Some 8" 1 0]] by simp
  have 7: "spsc_reach demo_ring (?s ?r2 (P_both (Some 8) 1 0) (C_tail 0) 0 0 [Some 7])"
    using consume [OF 6 c_load_tail] by simp
  have "spsc_reach demo_ring (?s ?r2 (P_both (Some 8) 1 0) (C_both 0 1) 0 1 [Some 7])"
    using consume [OF 7 c_load_head [of _ 0 1]] by simp
  then show ?thesis by (simp add: demo_state_def)
qed

theorem spsc_concurrent_fifo_witness:
  "popped demo_state @ ring_contents (shm demo_state) = [Some 7] \<and>
   length (ring_contents (shm demo_state)) \<le> 2"
  using spsc_concurrent_fifo [OF demo_ring_init _ demo_state_reach]
  by (simp add: demo_state_def)



end
