(* ===== verification/Worker_Pool.thy ===== *)
theory Worker_Pool
  imports Spsc_Ring
begin

text \<open>
  The worker pool of \<open>src/worker_pool.h\<close> and \<open>src/worker_pool.c\<close>: the event-loop thread
  dispatches work items round-robin into one ring per worker, the worker threads pop, run and
  free them, and \<open>worker_pool_destroy\<close> stops and joins the workers one after another. The
  threads are interleaved step by step; a ring operation is one step, which the interleaving
  proof of the ring itself allows. Items live in an explicit heap, so a use after free, a second free
  or a lost item shows up in the state. What \<open>calloc\<close>, \<open>malloc\<close>, \<open>pthread_create\<close> and the
  h2o queues return is an argument of the operations. The proofs use the ring only through the
  contract \<open>bounded_fifo\<close>.
\<close>

section \<open>Data\<close>

type_synonym addr = nat

text \<open>\<open>SPSC_CAPACITY\<close>\<close>

abbreviation spsc_capacity :: size_t where
  "spsc_capacity \<equiv> 1024"

record ('r, 'h, 'd) work_item =
  wi_req :: 'r
  wi_handler :: 'h
  wi_worker_data :: 'd

text \<open>Where a worker thread stands in the loop of \<open>worker_thread\<close>.\<close>

datatype worker_pc =
    Not_created
  | Loop_test
  | Do_pop
  | Have_item addr
  | Item_done addr
  | Exited

record worker =
  w_ring :: "addr spsc_ring"
  w_running :: bool
  w_return_queue :: "nat option"
  w_receiver_registered :: bool
  w_pc :: worker_pc

text \<open>The event-loop thread: serving requests, or inside \<open>worker_pool_destroy\<close>.\<close>

datatype owner_pc =
    Serving
  | Stop_worker nat
  | Join_worker nat
  | Destroyed

record ('r, 'h, 'd) pool =
  workers :: "worker list"
  workers_freed :: bool
  num_workers :: size_t
  next_worker :: size_t
  items :: "addr \<Rightarrow> ('r, 'h, 'd) work_item option"
  handler_calls :: "(nat \<times> ('r, 'h, 'd) work_item) list"
  owner_pc :: owner_pc

section \<open>Operations\<close>

text \<open>A worker as \<open>calloc\<close> leaves it.\<close>

definition zero_worker :: worker where
  "zero_worker = \<lparr>w_ring = \<lparr>slots = replicate 1024 None, ring_mask = 0, head = 0, tail = 0\<rparr>,
     w_running = False, w_return_queue = None, w_receiver_registered = False, w_pc = Not_created\<rparr>"

text \<open>One iteration of the initialisation loop.\<close>

definition init_worker :: "(nat \<Rightarrow> nat) \<Rightarrow> (nat \<Rightarrow> i32) \<Rightarrow> nat \<Rightarrow> ('r, 'h, 'd) pool \<Rightarrow> ('r, 'h, 'd) pool result" where
  "init_worker create_queue pthread_create i pool =
     (let w = workers pool ! i
      in bindR (spsc_ring_init (slots (w_ring w)) spsc_capacity) (\<lambda>r.
           let w = w\<lparr>w_ring := r, w_running := True, w_return_queue := Some (create_queue i),
                     w_receiver_registered := True\<rparr>
           in if pthread_create i \<noteq> 0 then Inl Aborted
              else Inr (pool\<lparr>workers := (workers pool)[i := w\<lparr>w_pc := Loop_test\<rparr>]\<rparr>)))"

definition worker_pool_init ::
  "size_t \<Rightarrow> bool \<Rightarrow> (nat \<Rightarrow> nat) \<Rightarrow> (nat \<Rightarrow> i32) \<Rightarrow> ('r, 'h, 'd) pool result" where
  "worker_pool_init num calloc_ok create_queue pthread_create =
     guardR (num > 0) AssertFailure
       (guardR calloc_ok NullDeref
         (forR [0..<unat num] (init_worker create_queue pthread_create)
           \<lparr>workers = replicate (unat num) zero_worker, workers_freed = False, num_workers = num,
            next_worker = 0, items = (\<lambda>_. None), handler_calls = [], owner_pc = Serving\<rparr>))"

text \<open>
  \<open>worker_pool_dispatch\<close>; the second argument is the address \<open>malloc\<close> returned, \<open>None\<close> for \<open>NULL\<close>.
\<close>

definition worker_pool_dispatch ::
  "('r, 'h, 'd) pool \<Rightarrow> addr option \<Rightarrow> 'r \<Rightarrow> 'h \<Rightarrow> 'd \<Rightarrow> (bool \<times> ('r, 'h, 'd) pool) result" where
  "worker_pool_dispatch pool item req handler worker_data =
     guardR (num_workers pool \<noteq> 0) DivByZero
       (let idx = unat (next_worker pool mod num_workers pool);
            pool = pool\<lparr>next_worker := next_worker pool + 1\<rparr>
        in guardR (\<not> workers_freed pool) UseAfterFree (guardR (idx < length (workers pool)) OutOfBounds
          (case item of
             None \<Rightarrow> Inr (False, pool)
           | Some a \<Rightarrow>
               let w = workers pool ! idx;
                   pool = pool\<lparr>items := (items pool)(a \<mapsto> \<lparr>wi_req = req, wi_handler = handler,
                                  wi_worker_data = worker_data\<rparr>)\<rparr>
               in bindR (spsc_ring_push (w_ring w) (Some a)) (\<lambda>(pushed, r).
                    if \<not> pushed then Inr (False, pool\<lparr>items := (items pool)(a := None)\<rparr>)
                    else Inr (True, pool\<lparr>workers := (workers pool)[idx := w\<lparr>w_ring := r\<rparr>]\<rparr>)))))"

text \<open>
  One step of \<open>worker_thread\<close> for worker \<open>i\<close>: the test of \<open>running\<close>, the pop (an empty ring is
  followed by \<open>sched_yield\<close>), the handler call and the \<open>free\<close>.
\<close>

definition worker_step :: "nat \<Rightarrow> ('r, 'h, 'd) pool \<Rightarrow> ('r, 'h, 'd) pool result" where
  "worker_step i pool =
     guardR (\<not> workers_freed pool) UseAfterFree
       (let w = workers pool ! i;
            upd = (\<lambda>w pool. pool\<lparr>workers := (workers pool)[i := w]\<rparr>)
        in case w_pc w of
             Loop_test \<Rightarrow> Inr (upd (w\<lparr>w_pc := (if w_running w then Do_pop else Exited)\<rparr>) pool)
           | Do_pop \<Rightarrow> bindR (spsc_ring_pop (w_ring w)) (\<lambda>(item, r).
               case item of
                 None \<Rightarrow> Inr (upd (w\<lparr>w_ring := r, w_pc := Loop_test\<rparr>) pool)
               | Some a \<Rightarrow> Inr (upd (w\<lparr>w_ring := r, w_pc := Have_item a\<rparr>) pool))
           | Have_item a \<Rightarrow> (case items pool a of
                 None \<Rightarrow> Inl UseAfterFree
               | Some it \<Rightarrow> Inr (upd (w\<lparr>w_pc := Item_done a\<rparr>)
                   (pool\<lparr>handler_calls := handler_calls pool @ [(i, it)]\<rparr>)))
           | Item_done a \<Rightarrow> (case items pool a of
                 None \<Rightarrow> Inl DoubleFree
               | Some it \<Rightarrow> Inr (upd (w\<lparr>w_pc := Loop_test\<rparr>) (pool\<lparr>items := (items pool)(a := None)\<rparr>)))
           | Not_created \<Rightarrow> Inr pool
           | Exited \<Rightarrow> Inr pool)"

text \<open>
  One step of \<open>worker_pool_destroy\<close>: clear \<open>running\<close>; wait in \<open>pthread_join\<close> (\<open>None\<close> while the
  thread has not returned), then unregister and destroy the queue; after the last worker, free
  the array.
\<close>

definition destroy_step :: "('r, 'h, 'd) pool \<Rightarrow> ('r, 'h, 'd) pool result option" where
  "destroy_step pool =
     (case owner_pc pool of
        Stop_worker i \<Rightarrow>
          if i < unat (num_workers pool)
          then Some (guardR (\<not> workers_freed pool) UseAfterFree
            (Inr (pool\<lparr>workers := (workers pool)[i := (workers pool ! i)\<lparr>w_running := False\<rparr>],
                       owner_pc := Join_worker i\<rparr>)))
          else Some (guardR (\<not> workers_freed pool) DoubleFree
            (Inr (pool\<lparr>workers_freed := True, owner_pc := Destroyed\<rparr>)))
      | Join_worker i \<Rightarrow>
          if w_pc (workers pool ! i) = Exited
          then Some (guardR (\<not> workers_freed pool) UseAfterFree
            (Inr (pool\<lparr>workers := (workers pool)[i := (workers pool ! i)\<lparr>w_receiver_registered := False,
                         w_return_queue := None\<rparr>],
                       owner_pc := Stop_worker (Suc i)\<rparr>)))
          else None
      | Serving \<Rightarrow> None
      | Destroyed \<Rightarrow> None)"

text \<open>
  Return messages: the receiver of a worker's queue answers every message in arrival order,
  with \<open>h2o_send_inline\<close> for status 200 and \<open>h2o_send_error_generic\<close> otherwise, and frees it.
\<close>

record 'r return_message =
  rm_req :: 'r
  rm_status_code :: i32
  rm_body :: "byte list"

datatype 'r pool_reply =
    Send_inline 'r "byte list"
  | Send_error_generic 'r i32 string "byte list"

fun on_return_message ::
  "'r return_message list \<Rightarrow> 'r pool_reply list \<Rightarrow> 'r return_message list \<times> 'r pool_reply list" where
  "on_return_message [] out = ([], out)"
| "on_return_message (msg # messages) out =
     on_return_message messages
       (out @ [if rm_status_code msg = 200 then Send_inline (rm_req msg) (rm_body msg)
               else Send_error_generic (rm_req msg) (rm_status_code msg) ''Error'' (rm_body msg)])"

text \<open>
  \<open>worker_pool_process_returns\<close> wakes the receiver of every worker once: the workers whose receiver gets an
  empty message, in order.
\<close>

definition worker_pool_process_returns :: "('r, 'h, 'd) pool \<Rightarrow> nat list result" where
  "worker_pool_process_returns pool =
     forR [0..<unat (num_workers pool)]
       (\<lambda>i sent. guardR (\<not> workers_freed pool) UseAfterFree
         (guardR (i < length (workers pool)) OutOfBounds (Inr (sent @ [i])))) []"

section \<open>The threads together\<close>

text \<open>
  \<open>history\<close> records every dispatch: the worker it chose, the item, and whether it was accepted.
  \<open>malloc\<close> returns \<open>NULL\<close> or an address that is not in use.
\<close>

type_synonym ('r, 'h, 'd) history = "(nat \<times> ('r, 'h, 'd) work_item \<times> bool) list"

inductive pool_step ::
  "('r, 'h, 'd) pool \<times> ('r, 'h, 'd) history \<Rightarrow> ('r, 'h, 'd) pool \<times> ('r, 'h, 'd) history \<Rightarrow> bool" where
  dispatch: "owner_pc p = Serving \<Longrightarrow> (\<forall>a. m = Some a \<longrightarrow> items p a = None) \<Longrightarrow>
    worker_pool_dispatch p m (wi_req it) (wi_handler it) (wi_worker_data it) = Inr (ok, p') \<Longrightarrow>
    pool_step (p, hs) (p', hs @ [(unat (next_worker p mod num_workers p), it, ok)])"
| work: "i < length (workers p) \<Longrightarrow> w_pc (workers p ! i) \<notin> {Not_created, Exited} \<Longrightarrow>
    worker_step i p = Inr p' \<Longrightarrow> pool_step (p, hs) (p', hs)"
| begin_destroy: "owner_pc p = Serving \<Longrightarrow> pool_step (p, hs) (p\<lparr>owner_pc := Stop_worker 0\<rparr>, hs)"
| destroy: "destroy_step p = Some (Inr p') \<Longrightarrow> pool_step (p, hs) (p', hs)"

inductive_cases pool_stepE: "pool_step (p, hs) s'"

definition pool_reach ::
  "size_t \<Rightarrow> ('r, 'h, 'd) pool \<times> ('r, 'h, 'd) history \<Rightarrow> bool" where
  "pool_reach n s \<longleftrightarrow> (\<exists>queues p0. worker_pool_init n True queues (\<lambda>_. 0) = Inr p0 \<and> pool_step\<^sup>*\<^sup>* (p0, []) s)"

section \<open>The invariant\<close>

definition ring_addrs :: "worker \<Rightarrow> addr list" where
  "ring_addrs w = map the (ring_contents (w_ring w))"

text \<open>The items a worker is responsible for, and those of them it has not run yet.\<close>

definition owned :: "worker \<Rightarrow> addr list" where
  "owned w = (case w_pc w of Have_item a \<Rightarrow> [a] | Item_done a \<Rightarrow> [a] | _ \<Rightarrow> []) @ ring_addrs w"

definition queued :: "worker \<Rightarrow> addr list" where
  "queued w = (case w_pc w of Have_item a \<Rightarrow> [a] | _ \<Rightarrow> []) @ ring_addrs w"

definition accepted_by :: "nat \<Rightarrow> ('r, 'h, 'd) history \<Rightarrow> ('r, 'h, 'd) work_item list" where
  "accepted_by i hs = map (\<lambda>(j, it, ok). it) (filter (\<lambda>(j, it, ok). ok \<and> j = i) hs)"

definition run_by :: "nat \<Rightarrow> (nat \<times> ('r, 'h, 'd) work_item) list \<Rightarrow> ('r, 'h, 'd) work_item list" where
  "run_by i calls = map snd (filter (\<lambda>(j, it). j = i) calls)"

lemma accepted_by_simps [simp]:
  "accepted_by i [] = []"
  "accepted_by i (hs @ [(j, it, ok)]) = accepted_by i hs @ (if ok \<and> j = i then [it] else [])"
  by (simp_all add: accepted_by_def)

lemma run_by_simps [simp]:
  "run_by i [] = []"
  "run_by i (calls @ [(j, it)]) = run_by i calls @ (if j = i then [it] else [])"
  by (simp_all add: run_by_def)

lemma queued_subset: "set (queued w) \<subseteq> set (owned w)"
  by (auto simp: queued_def owned_def split: worker_pc.splits)

text \<open>Every allocated item belongs to exactly one worker, once.\<close>

definition own_ok :: "worker list \<Rightarrow> (addr \<Rightarrow> 'x option) \<Rightarrow> bool" where
  "own_ok ws its \<longleftrightarrow>
     (\<forall>i<length ws. distinct (owned (ws ! i))) \<and>
     (\<forall>i<length ws. \<forall>j<length ws. i \<noteq> j \<longrightarrow> set (owned (ws ! i)) \<inter> set (owned (ws ! j)) = {}) \<and>
     dom its = (\<Union>i<length ws. set (owned (ws ! i)))"

definition owned_by_others :: "worker list \<Rightarrow> nat \<Rightarrow> addr set" where
  "owned_by_others ws i = (\<Union>j\<in>{..<length ws} - {i}. set (owned (ws ! j)))"

lemma own_ok_split:
  assumes "own_ok ws its" and "i < length ws"
  shows "dom its = set (owned (ws ! i)) \<union> owned_by_others ws i"
    and "set (owned (ws ! i)) \<inter> owned_by_others ws i = {}" and "distinct (owned (ws ! i))"
proof -
  have "{..<length ws} = insert i ({..<length ws} - {i})" using assms(2) by auto
  then have "(\<Union>j<length ws. set (owned (ws ! j))) = set (owned (ws ! i)) \<union> owned_by_others ws i"
    unfolding owned_by_others_def by (metis UN_insert)
  then show "dom its = set (owned (ws ! i)) \<union> owned_by_others ws i"
    using assms(1) by (simp add: own_ok_def)
  show "set (owned (ws ! i)) \<inter> owned_by_others ws i = {}"
    using assms unfolding own_ok_def owned_by_others_def by blast
  show "distinct (owned (ws ! i))" using assms by (simp add: own_ok_def)
qed

lemma own_ok_change:
  assumes "own_ok ws its" and "i < length ws" and "distinct (owned w)"
    and "set (owned w) \<inter> owned_by_others ws i = {}" and "dom its' = set (owned w) \<union> owned_by_others ws i"
  shows "own_ok (ws[i := w]) its'"
proof -
  have *: "{..<length ws} = insert i ({..<length ws} - {i})" using assms(2) by auto
  have "(\<Union>j<length ws. set (owned (ws[i := w] ! j))) = set (owned w) \<union> owned_by_others ws i"
    unfolding owned_by_others_def using assms(2) by (subst *) (simp only: UN_insert, simp)
  moreover have "set (owned w) \<inter> set (owned (ws ! j)) = {}" if "j < length ws" "j \<noteq> i" for j
    using assms(4) that unfolding owned_by_others_def by blast
  ultimately show ?thesis
    using assms(1,2,3,5) unfolding own_ok_def by (simp add: nth_list_update Int_commute)
qed

lemma own_ok_same:
  assumes "own_ok ws its" and "i < length ws" and "distinct (owned w)" and "set (owned w) = set (owned (ws ! i))"
  shows "own_ok (ws[i := w]) its"
  using own_ok_change [OF assms(1-3)] own_ok_split [OF assms(1,2)] assms(4) by simp

lemma own_ok_add:
  assumes "own_ok ws its" and "i < length ws" and "its a = None"
    and "distinct (owned w)" and "set (owned w) = insert a (set (owned (ws ! i)))"
  shows "own_ok (ws[i := w]) (its(a \<mapsto> x))"
proof (rule own_ok_change [OF assms(1,2,4)])
  have "a \<notin> dom its" using assms(3) by (simp add: domIff)
  then have "a \<notin> owned_by_others ws i" unfolding own_ok_split(1) [OF assms(1,2)] by simp
  then show "set (owned w) \<inter> owned_by_others ws i = {}"
    unfolding assms(5) using own_ok_split(2) [OF assms(1,2)] by auto
  show "dom (its(a \<mapsto> x)) = set (owned w) \<union> owned_by_others ws i"
    unfolding dom_fun_upd own_ok_split(1) [OF assms(1,2)] assms(5) by simp
qed

lemma own_ok_remove:
  assumes "own_ok ws its" and "i < length ws" and "a \<in> set (owned (ws ! i))"
    and "distinct (owned w)" and "set (owned w) = set (owned (ws ! i)) - {a}"
  shows "own_ok (ws[i := w]) (its(a := None))"
proof (rule own_ok_change [OF assms(1,2,4)])
  show "set (owned w) \<inter> owned_by_others ws i = {}"
    unfolding assms(5) using own_ok_split(2) [OF assms(1,2)] by auto
  show "dom (its(a := None)) = set (owned w) \<union> owned_by_others ws i"
    unfolding dom_fun_upd own_ok_split(1) [OF assms(1,2)] assms(5)
    using own_ok_split(2) [OF assms(1,2)] assms(3) by auto
qed

definition ring_part_ok :: "worker \<Rightarrow> bool" where
  "ring_part_ok w \<longleftrightarrow> spsc_ring_ok (w_ring w) \<and> ring_capacity (w_ring w) = 1024 \<and>
     None \<notin> set (ring_contents (w_ring w)) \<and> w_pc w \<noteq> Not_created"

definition stopped :: "worker \<Rightarrow> bool" where
  "stopped w \<longleftrightarrow> w_pc w = Exited \<and> \<not> w_running w \<and> w_return_queue w = None \<and> \<not> w_receiver_registered w"

definition live :: "worker \<Rightarrow> bool" where
  "live w \<longleftrightarrow> w_pc w \<noteq> Exited \<and> w_running w \<and> w_return_queue w \<noteq> None \<and> w_receiver_registered w"

definition owner_ok :: "('r, 'h, 'd) pool \<Rightarrow> bool" where
  "owner_ok p \<longleftrightarrow> (case owner_pc p of
       Serving \<Rightarrow> \<not> workers_freed p \<and> (\<forall>i<length (workers p). live (workers p ! i))
     | Stop_worker k \<Rightarrow> \<not> workers_freed p \<and> k \<le> length (workers p) \<and> (\<forall>i<k. stopped (workers p ! i)) \<and>
         (\<forall>i<length (workers p). k \<le> i \<longrightarrow> live (workers p ! i))
     | Join_worker k \<Rightarrow> \<not> workers_freed p \<and> k < length (workers p) \<and> (\<forall>i<k. stopped (workers p ! i)) \<and>
         (\<forall>i<length (workers p). k < i \<longrightarrow> live (workers p ! i)) \<and> \<not> w_running (workers p ! k)
     | Destroyed \<Rightarrow> workers_freed p \<and> (\<forall>i<length (workers p). stopped (workers p ! i)))"

definition trace_ok :: "nat \<Rightarrow> ('r, 'h, 'd) pool \<Rightarrow> ('r, 'h, 'd) history \<Rightarrow> bool" where
  "trace_ok i p hs \<longleftrightarrow> accepted_by i hs =
     run_by i (handler_calls p) @ map (\<lambda>a. the (items p a)) (queued (workers p ! i))"

definition pool_inv :: "size_t \<Rightarrow> ('r, 'h, 'd) pool \<times> ('r, 'h, 'd) history \<Rightarrow> bool" where
  "pool_inv n s \<longleftrightarrow> (case s of (p, hs) \<Rightarrow>
     0 < n \<and> num_workers p = n \<and> length (workers p) = unat n \<and> next_worker p = of_nat (length hs) \<and>
     own_ok (workers p) (items p) \<and> owner_ok p \<and>
     (\<forall>i<unat n. ring_part_ok (workers p ! i) \<and> trace_ok i p hs))"

text \<open>What a push and a pop do to the addresses in a worker's ring, from the ring's contract.\<close>

lemma worker_push:
  assumes "ring_part_ok w"
  shows "\<exists>ok r. spsc_ring_push (w_ring w) (Some a) = Inr (ok, r) \<and> ring_part_ok (w\<lparr>w_ring := r\<rparr>) \<and>
    (ok \<longleftrightarrow> length (ring_addrs w) < 1024) \<and>
    ring_addrs (w\<lparr>w_ring := r\<rparr>) = ring_addrs w @ (if ok then [a] else [])"
  using ring.push_result [of "w_ring w" "Some a"] assms by (auto simp: ring_part_ok_def ring_addrs_def)

lemma worker_pop:
  assumes "ring_part_ok w"
  shows "\<exists>x r. spsc_ring_pop (w_ring w) = Inr (x, r) \<and> ring_part_ok (w\<lparr>w_ring := r\<rparr>) \<and>
    ring_addrs w = (case x of None \<Rightarrow> [] | Some a \<Rightarrow> [a]) @ ring_addrs (w\<lparr>w_ring := r\<rparr>)"
proof (cases "ring_contents (w_ring w)")
  case Nil
  then show ?thesis
    using ring.pop_empty [of "w_ring w"] assms by (auto simp: ring_part_ok_def ring_addrs_def)
next
  case (Cons x xs)
  then show ?thesis
    using ring.pop_item [of "w_ring w" x xs] assms
    by (cases x) (auto simp: ring_part_ok_def ring_addrs_def)
qed

lemma ring_part_ok_update [simp]:
  "ring_part_ok (w\<lparr>w_running := b\<rparr>) = ring_part_ok w"
  "ring_part_ok (w\<lparr>w_return_queue := q\<rparr>) = ring_part_ok w"
  "ring_part_ok (w\<lparr>w_receiver_registered := b\<rparr>) = ring_part_ok w"
  "ring_part_ok w \<Longrightarrow> pc \<noteq> Not_created \<Longrightarrow> ring_part_ok (w\<lparr>w_pc := pc\<rparr>)"
  by (simp_all add: ring_part_ok_def)

lemma ring_addrs_update [simp]:
  "ring_addrs (w\<lparr>w_running := b\<rparr>) = ring_addrs w"
  "ring_addrs (w\<lparr>w_return_queue := q\<rparr>) = ring_addrs w"
  "ring_addrs (w\<lparr>w_receiver_registered := b\<rparr>) = ring_addrs w"
  "ring_addrs (w\<lparr>w_pc := pc\<rparr>) = ring_addrs w"
  by (simp_all add: ring_addrs_def)

section \<open>Every step keeps the invariant\<close>

text \<open>A step that changes worker \<open>i\<close> only.\<close>

lemma pool_inv_change:
  assumes "pool_inv n (p, hs)" and "i < unat n"
    and "workers p' = (workers p)[i := w]" and "num_workers p' = n" and "next_worker p' = of_nat (length hs')"
    and "ring_part_ok w" and "own_ok ((workers p)[i := w]) (items p')" and "owner_ok p'" and "trace_ok i p' hs'"
    and "\<And>j a. j < unat n \<Longrightarrow> j \<noteq> i \<Longrightarrow> a \<in> set (owned (workers p ! j)) \<Longrightarrow> items p' a = items p a"
    and "\<And>j. j \<noteq> i \<Longrightarrow> run_by j (handler_calls p') = run_by j (handler_calls p)"
    and "\<And>j. j \<noteq> i \<Longrightarrow> accepted_by j hs' = accepted_by j hs"
  shows "pool_inv n (p', hs')"
proof -
  have "trace_ok j p' hs'" if "j < unat n" "j \<noteq> i" for j
  proof -
    have "map (\<lambda>a. the (items p' a)) (queued (workers p ! j)) = map (\<lambda>a. the (items p a)) (queued (workers p ! j))"
      using assms(10) [OF that] queued_subset by (auto simp: subset_iff)
    then show ?thesis
      using assms(1,2,3,11,12) that by (simp add: pool_inv_def trace_ok_def)
  qed
  then show ?thesis
    using assms(1-9) by (auto simp: pool_inv_def nth_list_update)
qed

lemma pool_inv_D:
  assumes "pool_inv n (p, hs)"
  shows "0 < n" "num_workers p = n" "length (workers p) = unat n" "next_worker p = of_nat (length hs)"
    "own_ok (workers p) (items p)" "owner_ok p"
    "i < unat n \<Longrightarrow> ring_part_ok (workers p ! i)" "i < unat n \<Longrightarrow> trace_ok i p hs"
  using assms by (auto simp: pool_inv_def)

lemma other_workers_items:
  assumes "own_ok ws its" and "i < length ws" and "j < length ws" and "j \<noteq> i" and "a \<in> set (owned (ws ! j))"
  shows "a \<notin> set (owned (ws ! i))" and "its a \<noteq> None"
  using assms unfolding own_ok_def by blast+

lemma own_ok_item: "own_ok ws its \<Longrightarrow> i < length ws \<Longrightarrow> a \<in> set (owned (ws ! i)) \<Longrightarrow> its a \<noteq> None"
  unfolding own_ok_def by blast

lemma work_item_eta: "\<lparr>wi_req = wi_req it, wi_handler = wi_handler it, wi_worker_data = wi_worker_data it\<rparr> = it"
  by (cases it) simp

lemma dispatch_index:
  assumes "0 < (n :: size_t)"
  shows "unat (c mod n) < unat n"
proof -
  have "0 < unat n" using assms by (simp add: word_greater_zero_iff unat_gt_0)
  then show ?thesis by (simp add: unat_mod)
qed

text \<open>A dispatch that is turned away, and one that is accepted.\<close>

lemma refused_inv:
  assumes "pool_inv n (p, hs)" and "owner_pc p = Serving"
  shows "pool_inv n (p\<lparr>next_worker := next_worker p + 1\<rparr>, hs @ [(i, it, False)])"
  using assms unfolding pool_inv_def by (auto simp: owner_ok_def trace_ok_def)

lemma accepted_inv:
  assumes inv: "pool_inv n (p, hs)" and pc: "owner_pc p = Serving" and i: "i < unat n" and a: "items p a = None"
    and r: "ring_part_ok ((workers p ! i)\<lparr>w_ring := r\<rparr>)"
      "ring_addrs ((workers p ! i)\<lparr>w_ring := r\<rparr>) = ring_addrs (workers p ! i) @ [a]"
  shows "pool_inv n (p\<lparr>next_worker := next_worker p + 1, items := (items p)(a \<mapsto> it),
    workers := (workers p)[i := (workers p ! i)\<lparr>w_ring := r\<rparr>]\<rparr>, hs @ [(i, it, True)])"
proof -
  note D = pool_inv_D [OF inv]
  define w where "w = workers p ! i"
  let ?w = "w\<lparr>w_ring := r\<rparr>"
  let ?p = "p\<lparr>next_worker := next_worker p + 1, items := (items p)(a \<mapsto> it), workers := (workers p)[i := ?w]\<rparr>"
  have frame: "b \<noteq> a" if "j < unat n" "b \<in> set (owned (workers p ! j))" for j b
    using own_ok_item [OF D(5), of j b] that D(3) a by auto
  have anot: "a \<notin> set (owned w)" using frame [OF i, of a] by (auto simp: w_def)
  have q: "queued ?w = queued w @ [a]" and o: "owned ?w = owned w @ [a]"
    using r(2) by (auto simp: queued_def owned_def simp flip: w_def split: worker_pc.splits)
  have "map (\<lambda>b. the (items ?p b)) (queued w) = map (\<lambda>b. the (items p b)) (queued w)"
    using anot queued_subset by (auto simp: subset_iff)
  then have tr: "trace_ok i ?p (hs @ [(i, it, True)])"
    using D(8) [OF i] i D(3) by (simp add: trace_ok_def q w_def [symmetric])
  have "live ?w = live w" by (simp add: live_def)
  then have oo: "owner_ok ?p" using D(6) pc i D(3) by (auto simp: owner_ok_def nth_list_update w_def)
  have "distinct (owned w)" using D(5) i D(3) by (simp add: own_ok_def w_def)
  then have own: "own_ok ((workers p)[i := ?w]) (items ?p)"
    using i D(3) anot by (simp, intro own_ok_add [OF D(5) _ a]) (simp_all add: o flip: w_def)
  have "pool_inv n (?p, hs @ [(i, it, True)])"
    by (rule pool_inv_change [OF inv i _ _ _ _ _ oo tr]) (use own frame r(1) D(2,4) in \<open>auto simp flip: w_def\<close>)
  then show ?thesis by (simp add: w_def)
qed

lemma dispatch_keeps_inv:
  assumes inv: "pool_inv n (p, hs)" and pc: "owner_pc p = Serving"
    and fresh: "\<forall>a. m = Some a \<longrightarrow> items p a = None"
  defines "idx \<equiv> unat (next_worker p mod num_workers p)"
  shows "\<exists>ok p'. worker_pool_dispatch p m (wi_req it) (wi_handler it) (wi_worker_data it) = Inr (ok, p') \<and>
    pool_inv n (p', hs @ [(idx, it, ok)]) \<and>
    (ok \<longleftrightarrow> m \<noteq> None \<and> length (ring_addrs (workers p ! idx)) < 1024)"
proof -
  note D = pool_inv_D [OF inv]
  define w where "w = workers p ! idx"
  have idx: "idx < unat n" using D(1,2) dispatch_index by (simp add: idx_def)
  have ready: "\<not> workers_freed p" "num_workers p \<noteq> 0" "idx < length (workers p)"
    using D(1,2,3,6) pc idx by (auto simp: owner_ok_def)
  show ?thesis
  proof (cases m)
    case None
    then show ?thesis
      using refused_inv [OF inv pc] ready by (auto simp: worker_pool_dispatch_def idx_def Let_def)
  next
    case (Some a)
    obtain ok r where push: "spsc_ring_push (w_ring w) (Some a) = Inr (ok, r)"
        "ring_part_ok (w\<lparr>w_ring := r\<rparr>)" "ok \<longleftrightarrow> length (ring_addrs w) < 1024"
        "ring_addrs (w\<lparr>w_ring := r\<rparr>) = ring_addrs w @ (if ok then [a] else [])"
      using worker_push [of w a] D(7) [OF idx] by (auto simp: w_def)
    have a: "items p a = None" using fresh Some by simp
    note step = worker_pool_dispatch_def Let_def work_item_eta
    show ?thesis
    proof (cases ok)
      case False
      have "(items p)(a := None) = items p" using a by (simp add: fun_upd_idem)
      then have "worker_pool_dispatch p m (wi_req it) (wi_handler it) (wi_worker_data it) =
          Inr (False, p\<lparr>next_worker := next_worker p + 1\<rparr>)"
        using Some push(1) False ready by (simp add: step flip: idx_def w_def)
      then show ?thesis using refused_inv [OF inv pc] push(3) False by (auto simp: w_def)
    next
      case True
      have "worker_pool_dispatch p m (wi_req it) (wi_handler it) (wi_worker_data it) =
          Inr (True, p\<lparr>next_worker := next_worker p + 1, items := (items p)(a \<mapsto> it), workers := (workers p)[idx := w\<lparr>w_ring := r\<rparr>]\<rparr>)"
        using Some ready push(1) True by (simp add: step flip: idx_def w_def)
      then show ?thesis
        using accepted_inv [OF inv pc idx a, of r it] push(2-4) Some True by (auto simp flip: w_def)
    qed
  qed
qed

lemma owner_ok_work:
  assumes "owner_ok p" and "i < length (workers p)" and "w_pc (workers p ! i) \<noteq> Exited"
    and "w_running w = w_running (workers p ! i)" and "w_return_queue w = w_return_queue (workers p ! i)"
    and "w_receiver_registered w = w_receiver_registered (workers p ! i)"
    and "w_running w \<longrightarrow> w_pc w \<noteq> Exited"
    and "workers p' = (workers p)[i := w]" and "owner_pc p' = owner_pc p" and "workers_freed p' = workers_freed p"
  shows "owner_ok p' \<and> \<not> workers_freed p"
  using assms unfolding owner_ok_def
  by (cases "owner_pc p") (auto simp: nth_list_update live_def stopped_def split: if_splits)

lemma owner_ok_not_freed:
  assumes "owner_ok p" and "i < length (workers p)" and "w_pc (workers p ! i) \<noteq> Exited"
  shows "\<not> workers_freed p"
  using assms by (auto simp: owner_ok_def stopped_def split: owner_pc.splits)

text \<open>What a worker does: a change of its own state, the run of the item it holds, and the release of it.\<close>

lemma worker_moves_inv:
  assumes inv: "pool_inv n (p, hs)" and i: "i < length (workers p)"
    and pc: "w_pc (workers p ! i) \<notin> {Not_created, Exited}"
    and w': "ring_part_ok w'" "owned w' = owned (workers p ! i)" "queued w' = queued (workers p ! i)"
      "w_running w' = w_running (workers p ! i)" "w_return_queue w' = w_return_queue (workers p ! i)"
      "w_receiver_registered w' = w_receiver_registered (workers p ! i)" "w_running w' \<longrightarrow> w_pc w' \<noteq> Exited"
  shows "pool_inv n (p\<lparr>workers := (workers p)[i := w']\<rparr>, hs)"
proof -
  note D = pool_inv_D [OF inv]
  have i': "i < unat n" using i D(3) by simp
  let ?p = "p\<lparr>workers := (workers p)[i := w']\<rparr>"
  have "owner_ok ?p" using owner_ok_work [OF D(6) i, of w' ?p] pc w' by simp
  moreover have "own_ok ((workers p)[i := w']) (items p)"
    using own_ok_same [OF D(5) i] w' D(5) i by (simp add: own_ok_def)
  moreover have "trace_ok i ?p hs" using D(8) [OF i'] w' i by (simp add: trace_ok_def)
  ultimately show ?thesis using w' D(2,4) by (intro pool_inv_change [OF inv i', of _ w']) auto
qed

lemma item_run_inv:
  assumes inv: "pool_inv n (p, hs)" and i: "i < length (workers p)"
    and pc: "w_pc (workers p ! i) = Have_item a" and it: "items p a = Some it"
  shows "pool_inv n (p\<lparr>handler_calls := handler_calls p @ [(i, it)],
    workers := (workers p)[i := (workers p ! i)\<lparr>w_pc := Item_done a\<rparr>]\<rparr>, hs)"
proof -
  note D = pool_inv_D [OF inv]
  have i': "i < unat n" using i D(3) by simp
  have dist: "distinct (owned (workers p ! i))" using D(5) i by (simp add: own_ok_def)
  let ?w = "(workers p ! i)\<lparr>w_pc := Item_done a\<rparr>"
  let ?p = "p\<lparr>handler_calls := handler_calls p @ [(i, it)], workers := (workers p)[i := ?w]\<rparr>"
  have "owner_ok ?p" using owner_ok_work [OF D(6) i, of ?w ?p] pc by simp
  moreover have "own_ok ((workers p)[i := ?w]) (items p)"
    using pc dist by (intro own_ok_same [OF D(5) i]) (simp_all add: owned_def)
  moreover have "trace_ok i ?p hs" using D(8) [OF i'] i it pc by (simp add: trace_ok_def queued_def)
  ultimately show ?thesis using D(2,4) D(7) [OF i'] by (intro pool_inv_change [OF inv i', of _ ?w]) auto
qed

lemma item_freed_inv:
  assumes inv: "pool_inv n (p, hs)" and i: "i < length (workers p)" and pc: "w_pc (workers p ! i) = Item_done a"
  shows "pool_inv n (p\<lparr>items := (items p)(a := None),
    workers := (workers p)[i := (workers p ! i)\<lparr>w_pc := Loop_test\<rparr>]\<rparr>, hs)"
proof -
  note D = pool_inv_D [OF inv]
  have i': "i < unat n" using i D(3) by simp
  let ?w = "(workers p ! i)\<lparr>w_pc := Loop_test\<rparr>"
  let ?p = "p\<lparr>items := (items p)(a := None), workers := (workers p)[i := ?w]\<rparr>"
  have dist: "distinct (owned (workers p ! i))" using D(5) i by (simp add: own_ok_def)
  have ain: "a \<in> set (owned (workers p ! i))" by (simp add: owned_def pc)
  have anot: "a \<notin> set (queued ?w)" and q: "queued ?w = queued (workers p ! i)"
    using dist pc by (simp_all add: owned_def queued_def)
  have "owner_ok ?p" using owner_ok_work [OF D(6) i, of ?w ?p] pc by simp
  moreover have "own_ok ((workers p)[i := ?w]) ((items p)(a := None))"
    using pc dist ain by (intro own_ok_remove [OF D(5) i]) (auto simp: owned_def)
  moreover have "trace_ok i ?p hs" using D(8) [OF i'] i anot q by (auto simp: trace_ok_def)
  moreover have "b \<noteq> a" if "j < unat n" "j \<noteq> i" "b \<in> set (owned (workers p ! j))" for j b
    using other_workers_items(1) [OF D(5) i _ that(2,3)] that(1) D(3) ain by auto
  ultimately show ?thesis using D(2,4) D(7) [OF i'] by (intro pool_inv_change [OF inv i', of _ ?w]) auto
qed

lemma worker_step_keeps_inv:
  assumes inv: "pool_inv n (p, hs)" and i: "i < length (workers p)"
    and pc: "w_pc (workers p ! i) \<notin> {Not_created, Exited}"
  shows "\<exists>p'. worker_step i p = Inr p' \<and> pool_inv n (p', hs)"
proof -
  note D = pool_inv_D [OF inv]
  define w where "w = workers p ! i"
  have nf: "\<not> workers_freed p" using owner_ok_not_freed [OF D(6) i] pc by simp
  have rp: "ring_part_ok w" using D(3) D(7) i by (simp add: w_def)
  have item: "\<exists>it. items p a = Some it" if "a \<in> set (owned w)" for a
    using own_ok_item [OF D(5) i, of a] that by (auto simp: w_def)
  show ?thesis
  proof (cases "w_pc w")
    case Loop_test
    have "pool_inv n (p\<lparr>workers := (workers p)[i := w\<lparr>w_pc := (if w_running w then Do_pop else Exited)\<rparr>]\<rparr>, hs)"
      using Loop_test rp by (intro worker_moves_inv [OF inv i pc]) (auto simp: w_def owned_def queued_def)
    then show ?thesis using Loop_test nf by (auto simp: worker_step_def Let_def w_def)
  next
    case Do_pop
    obtain x r where pop: "spsc_ring_pop (w_ring w) = Inr (x, r)" "ring_part_ok (w\<lparr>w_ring := r\<rparr>)"
        "ring_addrs w = (case x of None \<Rightarrow> [] | Some a \<Rightarrow> [a]) @ ring_addrs (w\<lparr>w_ring := r\<rparr>)"
      using worker_pop [OF rp] by blast
    define pc' where "pc' = (case x of None \<Rightarrow> Loop_test | Some a \<Rightarrow> Have_item a)"
    have "worker_step i p = Inr (p\<lparr>workers := (workers p)[i := w\<lparr>w_ring := r, w_pc := pc'\<rparr>]\<rparr>)"
      using Do_pop pop(1) nf by (auto simp: worker_step_def w_def [symmetric] pc'_def split: option.splits)
    moreover have "pool_inv n (p\<lparr>workers := (workers p)[i := w\<lparr>w_ring := r, w_pc := pc'\<rparr>]\<rparr>, hs)"
      using Do_pop pop by (intro worker_moves_inv [OF inv i pc])
        (auto simp: pc'_def owned_def queued_def ring_part_ok_def ring_addrs_def simp flip: w_def split: option.splits)
    ultimately show ?thesis by blast
  next
    case (Have_item a)
    then obtain it where it: "items p a = Some it" using item [of a] by (auto simp: owned_def)
    from item_run_inv [OF inv i _ it] Have_item it nf show ?thesis by (auto simp: worker_step_def w_def)
  next
    case (Item_done a)
    then obtain it where it: "items p a = Some it" using item [of a] by (auto simp: owned_def)
    from item_freed_inv [OF inv i, of a] Item_done it nf show ?thesis by (auto simp: worker_step_def w_def)
  qed (use pc in \<open>simp_all add: w_def\<close>)
qed

lemma begin_destroy_keeps_inv:
  "pool_inv n (p, hs) \<Longrightarrow> owner_pc p = Serving \<Longrightarrow> pool_inv n (p\<lparr>owner_pc := Stop_worker 0\<rparr>, hs)"
  by (simp add: pool_inv_def owner_ok_def trace_ok_def)

lemma owner_moves_inv:
  assumes inv: "pool_inv n (p, hs)" and k: "k < length (workers p)" and "ring_part_ok w"
    and "owned w = owned (workers p ! k)" and "queued w = queued (workers p ! k)"
    and "owner_ok (p\<lparr>workers := (workers p)[k := w], owner_pc := pc\<rparr>)"
  shows "pool_inv n (p\<lparr>workers := (workers p)[k := w], owner_pc := pc\<rparr>, hs)"
proof -
  note D = pool_inv_D [OF inv]
  have "own_ok ((workers p)[k := w]) (items p)"
    using assms(2-5) D(5) by (intro own_ok_same) (auto simp: own_ok_def)
  moreover have "trace_ok k (p\<lparr>workers := (workers p)[k := w], owner_pc := pc\<rparr>) hs"
    using D(8) [of k] assms(2-5) D(3) by (simp add: trace_ok_def)
  ultimately show ?thesis
    using assms(2-6) D(2,3,4) by (intro pool_inv_change [OF inv, of k _ w]) auto
qed

lemma destroy_keeps_inv:
  assumes inv: "pool_inv n (p, hs)" and step: "destroy_step p = Some res"
  shows "\<exists>p'. res = Inr p' \<and> pool_inv n (p', hs)"
proof -
  note D = pool_inv_D [OF inv]
  show ?thesis
  proof (cases "owner_pc p")
    case (Stop_worker k)
    then have own: "\<not> workers_freed p" "k \<le> length (workers p)" "\<forall>i<k. stopped (workers p ! i)"
        "\<forall>i<length (workers p). k \<le> i \<longrightarrow> live (workers p ! i)"
      using D(6) by (simp_all add: owner_ok_def)
    show ?thesis
    proof (cases "k < unat n")
      case True
      have "pool_inv n (p\<lparr>workers := (workers p)[k := (workers p ! k)\<lparr>w_running := False\<rparr>],
          owner_pc := Join_worker k\<rparr>, hs)"
        using True own D(3) D(7) [of k]
        by (intro owner_moves_inv [OF inv]) (auto simp: owner_ok_def owned_def queued_def nth_list_update)
      then show ?thesis
        using step Stop_worker True own D(2) by (auto simp: destroy_step_def)
    next
      case False
      then have "pool_inv n (p\<lparr>workers_freed := True, owner_pc := Destroyed\<rparr>, hs)"
        using inv own D(3) by (auto simp: pool_inv_def owner_ok_def trace_ok_def)
      then show ?thesis
        using step Stop_worker False own D(2) by (auto simp: destroy_step_def)
    qed
  next
    case (Join_worker k)
    then have own: "\<not> workers_freed p" "k < length (workers p)" "\<forall>i<k. stopped (workers p ! i)"
        "\<forall>i<length (workers p). k < i \<longrightarrow> live (workers p ! i)" "\<not> w_running (workers p ! k)"
      using D(6) by (simp_all add: owner_ok_def)
    have ex: "w_pc (workers p ! k) = Exited"
      using step Join_worker by (simp add: destroy_step_def split: if_splits)
    have "pool_inv n (p\<lparr>workers := (workers p)[k := (workers p ! k)\<lparr>w_receiver_registered := False,
        w_return_queue := None\<rparr>], owner_pc := Stop_worker (Suc k)\<rparr>, hs)"
      using own ex D(3) D(7) [of k]
      by (intro owner_moves_inv [OF inv]) (auto simp: owner_ok_def owned_def queued_def nth_list_update stopped_def less_Suc_eq)
    then show ?thesis
      using step Join_worker ex own by (auto simp: destroy_step_def)
  qed (use step in \<open>simp_all add: destroy_step_def\<close>)
qed

section \<open>Initialisation\<close>

definition fresh_worker :: "nat \<Rightarrow> worker" where
  "fresh_worker q = \<lparr>w_ring = \<lparr>slots = replicate 1024 None, ring_mask = 1023, head = 0, tail = 0\<rparr>,
     w_running = True, w_return_queue = Some q, w_receiver_registered = True, w_pc = Loop_test\<rparr>"

lemma init_capacity: "spsc_ring_init (replicate 1024 None) spsc_capacity =
    Inr \<lparr>slots = replicate 1024 None, ring_mask = 1023, head = 0, tail = 0\<rparr>"
  by (simp add: spsc_ring_init_def)

lemma fresh_worker_ok:
  "ring_part_ok (fresh_worker q)" "owned (fresh_worker q) = []" "queued (fresh_worker q) = []" "live (fresh_worker q)"
proof -
  have "spsc_ring_ok (w_ring (fresh_worker q)) \<and> ring_contents (w_ring (fresh_worker q)) = [] \<and>
      ring_capacity (w_ring (fresh_worker q)) = 1024"
    using spsc_ring_init_ok [OF init_capacity] by (simp add: fresh_worker_def)
  then show "ring_part_ok (fresh_worker q)" "owned (fresh_worker q) = []" "queued (fresh_worker q) = []"
      "live (fresh_worker q)"
    by (simp_all add: ring_part_ok_def owned_def queued_def ring_addrs_def live_def fresh_worker_def)
qed

definition fresh_pool :: "size_t \<Rightarrow> (nat \<Rightarrow> nat) \<Rightarrow> ('r, 'h, 'd) pool" where
  "fresh_pool n queues = \<lparr>workers = map (\<lambda>i. fresh_worker (queues i)) [0..<unat n], workers_freed = False,
     num_workers = n, next_worker = 0, items = (\<lambda>_. None), handler_calls = [], owner_pc = Serving\<rparr>"

lemma fresh_worker_eq:
  "zero_worker\<lparr>w_ring := \<lparr>slots = replicate 1024 None, ring_mask = 1023, head = 0, tail = 0\<rparr>, w_running := True,
     w_return_queue := Some q, w_receiver_registered := True, w_pc := Loop_test\<rparr> = fresh_worker q"
  by (simp add: zero_worker_def fresh_worker_def)

lemma init_worker_eq:
  assumes "workers p = ws @ zero_worker # rest" and "length ws = k"
  shows "init_worker queues (\<lambda>_. 0) k p = Inr (p\<lparr>workers := ws @ fresh_worker (queues k) # rest\<rparr>)"
proof -
  have "workers p ! k = zero_worker" and "\<And>w. (workers p)[k := w] = ws @ w # rest"
    and "slots (w_ring zero_worker) = replicate 1024 None"
    using assms by (auto simp: zero_worker_def nth_append list_update_append)
  then show ?thesis
    by (simp only: init_worker_def Let_def init_capacity bindR_simps fresh_worker_eq) simp
qed

lemma init_workers:
  assumes "workers p = replicate n zero_worker" and "k \<le> n"
  shows "forR [0..<k] (init_worker queues (\<lambda>_. 0)) p =
    Inr (p\<lparr>workers := map (\<lambda>i. fresh_worker (queues i)) [0..<k] @ replicate (n - k) zero_worker\<rparr>)"
  using assms(2)
proof (induction k)
  case 0
  then show ?case using assms(1) by simp
next
  case (Suc k)
  let ?ws = "map (\<lambda>i. fresh_worker (queues i)) [0..<k]"
  have split: "replicate (n - k) zero_worker = zero_worker # replicate (n - Suc k) zero_worker"
    using Suc.prems by (metis Suc_diff_Suc Suc_le_lessD replicate_Suc)
  have "init_worker queues (\<lambda>_. 0) k (p\<lparr>workers := ?ws @ replicate (n - k) zero_worker\<rparr>) =
      Inr (p\<lparr>workers := ?ws @ fresh_worker (queues k) # replicate (n - Suc k) zero_worker\<rparr>)"
    unfolding split by (rule init_worker_eq [THEN trans]) simp_all
  then show ?case
    using Suc by (simp add: forR_append)
qed

lemma worker_pool_init_eq:
  "0 < n \<Longrightarrow> worker_pool_init n True queues (\<lambda>_. 0) = Inr (fresh_pool n queues)"
  by (simp add: worker_pool_init_def init_workers fresh_pool_def)

lemma fresh_pool_inv: "0 < n \<Longrightarrow> pool_inv n (fresh_pool n queues, [])"
  by (simp add: pool_inv_def fresh_pool_def own_ok_def owner_ok_def trace_ok_def fresh_worker_ok)

lemma pool_step_inv:
  assumes "pool_step s s'" and "pool_inv n s"
  shows "pool_inv n s'"
  using assms
proof (cases rule: pool_step.cases)
  case (dispatch p m it ok p' hs)
  then show ?thesis
    using dispatch_keeps_inv [of n p hs m it] assms(2) by auto
next
  case (work i p p' hs)
  then show ?thesis using worker_step_keeps_inv [of n p hs i] assms(2) by auto
next
  case (begin_destroy p hs)
  then show ?thesis using begin_destroy_keeps_inv assms(2) by blast
next
  case (destroy p p' hs)
  then show ?thesis using destroy_keeps_inv assms(2) by blast
qed

lemma pool_steps_inv: "pool_step\<^sup>*\<^sup>* s s' \<Longrightarrow> pool_inv n s \<Longrightarrow> pool_inv n s'"
  by (induction rule: rtranclp_induct) (auto intro: pool_step_inv)

lemma pool_reach_inv: "pool_reach n s \<Longrightarrow> pool_inv n s"
proof -
  assume "pool_reach n s"
  then obtain queues p0 where p0: "worker_pool_init n True queues (\<lambda>_. 0) = Inr p0" "pool_step\<^sup>*\<^sup>* (p0, []) s"
    by (auto simp: pool_reach_def)
  then have "0 < n" by (auto simp: worker_pool_init_def guardR_eq_Inr_iff)
  then have "pool_inv n (p0, [])"
    using p0(1) fresh_pool_inv by (auto simp: worker_pool_init_eq)
  then show ?thesis
    by (rule pool_steps_inv [OF p0(2)])
qed

section \<open>Round robin\<close>

lemma dispatch_history:
  assumes "pool_step\<^sup>*\<^sup>* (p0, []) s" and "pool_inv n (p0, [])"
  shows "map fst (snd s) = map (\<lambda>k. k mod 2 ^ 64 mod unat n) [0..<length (snd s)]"
  using assms(1)
proof (induction rule: rtranclp_induct)
  case (step s s')
  have inv: "pool_inv n s" using pool_steps_inv [OF step.hyps(1) assms(2)] .
  show ?case
    using step.hyps(2)
  proof cases
    case (dispatch p m it ok p' hs)
    have "unat (next_worker p mod num_workers p) = length hs mod 2 ^ 64 mod unat n"
      using inv dispatch(1) by (simp add: pool_inv_def unat_mod unsigned_of_nat take_bit_eq_mod)
    then show ?thesis using dispatch step.IH by simp
  qed (use step.IH in simp_all)
qed simp

section \<open>The shutdown completes\<close>

fun pc_rank :: "worker_pc \<Rightarrow> nat" where
  "pc_rank Not_created = 0"
| "pc_rank Exited = 0"
| "pc_rank Loop_test = 1"
| "pc_rank (Item_done a) = 2"
| "pc_rank (Have_item a) = 3"
| "pc_rank Do_pop = 4"

text \<open>A worker that has been told to stop comes closer to its exit with every step.\<close>

lemma stopping_worker_step:
  assumes "worker_step i p = Inr p'" and "i < length (workers p)" and "\<not> w_running (workers p ! i)"
    and "w_pc (workers p ! i) \<notin> {Not_created, Exited}"
  shows "pc_rank (w_pc (workers p' ! i)) < pc_rank (w_pc (workers p ! i)) \<and> \<not> w_running (workers p' ! i) \<and>
    owner_pc p' = owner_pc p \<and> length (workers p') = length (workers p)"
  using assms
  by (auto simp: worker_step_def guardR_def Let_def split: worker_pc.splits option.splits if_splits elim!: bindR_eq_InrE)

lemma stopping_worker_exits:
  assumes "pool_inv n (p, hs)" and "i < unat n" and "\<not> w_running (workers p ! i)"
  shows "\<exists>p'. pool_step\<^sup>*\<^sup>* (p, hs) (p', hs) \<and> w_pc (workers p' ! i) = Exited \<and> owner_pc p' = owner_pc p"
  using assms
proof (induction "pc_rank (w_pc (workers p ! i))" arbitrary: p rule: less_induct)
  case less
  have len: "i < length (workers p)" and nc: "w_pc (workers p ! i) \<noteq> Not_created"
    using pool_inv_D(3,7) [OF less.prems(1)] less.prems(2) by (simp_all add: ring_part_ok_def)
  show ?case
  proof (cases "w_pc (workers p ! i) = Exited")
    case False
    then obtain p1 where p1: "worker_step i p = Inr p1" "pool_inv n (p1, hs)"
      using worker_step_keeps_inv [OF less.prems(1) len] nc by blast
    have step: "pool_step (p, hs) (p1, hs)"
      using pool_step.work [OF len _ p1(1)] False nc by simp
    have "\<exists>p'. pool_step\<^sup>*\<^sup>* (p1, hs) (p', hs) \<and> w_pc (workers p' ! i) = Exited \<and> owner_pc p' = owner_pc p1"
      using stopping_worker_step [OF p1(1) len less.prems(3)] False nc less.prems(2) p1(2)
      by (intro less.hyps) auto
    then show ?thesis
      using stopping_worker_step [OF p1(1) len less.prems(3)] False nc step
      by (metis converse_rtranclp_into_rtranclp empty_iff insert_iff)
  qed auto
qed

lemma shutdown_from:
  assumes "pool_inv n (p, hs)" and "owner_pc p = Stop_worker k" and "k \<le> unat n"
  shows "\<exists>p'. pool_step\<^sup>*\<^sup>* (p, hs) (p', hs) \<and> owner_pc p' = Destroyed"
  using assms
proof (induction "unat n - k" arbitrary: p k)
  case 0
  have "destroy_step p = Some (Inr (p\<lparr>workers_freed := True, owner_pc := Destroyed\<rparr>))"
    using 0 pool_inv_D(2,6) [OF 0(2)] by (simp add: destroy_step_def owner_ok_def)
  then have "pool_step (p, hs) (p\<lparr>workers_freed := True, owner_pc := Destroyed\<rparr>, hs)"
    by (rule pool_step.destroy)
  then show ?case by (intro exI conjI, rule r_into_rtranclp) auto
next
  case (Suc x)
  have k: "k < unat n" using Suc.hyps(2) by simp
  note D = pool_inv_D [OF Suc.prems(1)]
  let ?p1 = "p\<lparr>workers := (workers p)[k := (workers p ! k)\<lparr>w_running := False\<rparr>], owner_pc := Join_worker k\<rparr>"
  have nf: "\<not> workers_freed p" using D(6) Suc.prems(2) by (simp add: owner_ok_def)
  have s1: "pool_step (p, hs) (?p1, hs)"
    using Suc.prems(2) k D(2) nf by (intro pool_step.destroy) (simp add: destroy_step_def)
  have i1: "pool_inv n (?p1, hs)" using pool_step_inv [OF s1 Suc.prems(1)] .
  obtain p2 where p2: "pool_step\<^sup>*\<^sup>* (?p1, hs) (p2, hs)" "w_pc (workers p2 ! k) = Exited" "owner_pc p2 = Join_worker k"
    using stopping_worker_exits [OF i1 k] k D(3) by auto
  have i2: "pool_inv n (p2, hs)" using pool_steps_inv [OF p2(1) i1] .
  obtain p3 where p3: "destroy_step p2 = Some (Inr p3)" "owner_pc p3 = Stop_worker (Suc k)"
    using p2 pool_inv_D(6) [OF i2] by (simp add: destroy_step_def owner_ok_def)
  have s3: "pool_step (p2, hs) (p3, hs)" using pool_step.destroy [OF p3(1)] .
  have "\<exists>p'. pool_step\<^sup>*\<^sup>* (p3, hs) (p', hs) \<and> owner_pc p' = Destroyed"
    using pool_step_inv [OF s3 i2] p3(2) k Suc.hyps(2) by (intro Suc.hyps(1)) auto
  then show ?case
    using s1 p2(1) s3 by (meson converse_rtranclp_into_rtranclp rtranclp_trans)
qed

section \<open>A run with one dispatched item\<close>

lemma pool_reach_step: "pool_reach n s \<Longrightarrow> pool_step s s' \<Longrightarrow> pool_reach n s'"
  unfolding pool_reach_def by (meson rtranclp.rtrancl_into_rtrancl)

lemma pool_reach_steps: "pool_step\<^sup>*\<^sup>* s s' \<Longrightarrow> pool_reach n s \<Longrightarrow> pool_reach n s'"
  by (induction rule: rtranclp_induct) (auto intro: pool_reach_step)

lemma pool_reach_fresh: "0 < n \<Longrightarrow> pool_reach n (fresh_pool n queues, [])"
  unfolding pool_reach_def using worker_pool_init_eq by blast

lemma one_dispatch:
  fixes it :: "('r, 'h, 'd) work_item"
  shows "\<exists>p. pool_reach 2 (p, [(0, it, True)]) \<and> owner_pc p = Serving"
proof -
  let ?p = "fresh_pool 2 (\<lambda>_. 7) :: ('r, 'h, 'd) pool"
  have inv: "pool_inv 2 (?p, [])" by (rule fresh_pool_inv) simp
  have idx: "unat (next_worker ?p mod num_workers ?p) = 0" "owner_pc ?p = Serving" "items ?p 5 = None"
    by (simp_all add: fresh_pool_def)
  have room: "length (ring_addrs (workers ?p ! 0)) < 1024"
    using fresh_worker_ok(2) [of 7] by (simp add: fresh_pool_def owned_def upt_rec)
  obtain ok p' where p': "worker_pool_dispatch ?p (Some 5) (wi_req it) (wi_handler it) (wi_worker_data it) = Inr (ok, p')"
      "ok \<longleftrightarrow> Some (5 :: addr) \<noteq> None \<and> length (ring_addrs (workers ?p ! 0)) < 1024"
    using dispatch_keeps_inv [OF inv idx(2), of "Some 5" it] idx by auto
  have ok: "ok" using p'(2) room by simp
  have "pool_step (?p, []) (p', [] @ [(unat (next_worker ?p mod num_workers ?p), it, ok)])"
    using p'(1) idx by (intro pool_step.dispatch [of _ "Some 5"]) auto
  then have "pool_step (?p, []) (p', [(0, it, True)])" using idx(1) ok by simp
  then have "pool_reach 2 (p', [(0, it, True)])"
    by (rule pool_reach_step [OF pool_reach_fresh, rotated]) simp
  moreover have "owner_pc p' = Serving"
    using p'(1) idx(2) ok
    by (auto simp: worker_pool_dispatch_def guardR_def Let_def split: if_splits elim!: bindR_eq_InrE)
  ultimately show ?thesis by blast
qed

section \<open>Properties\<close>

text \<open>
  C6. In every interleaving of the event-loop thread and the workers, the items accepted for
  a worker are, in order, the items its handler has been called with followed by the items still
  waiting in its ring or just popped: nothing is lost, run twice or reordered. The allocated
  items are exactly those a worker still owns, each owned once.
\<close>

theorem pool_runs_each_item_once_in_order:
  assumes "pool_reach n (p, hs)" and "i < unat n"
  shows "accepted_by i hs = run_by i (handler_calls p) @ map (\<lambda>a. the (items p a)) (queued (workers p ! i)) \<and>
    dom (items p) = (\<Union>j<unat n. set (owned (workers p ! j))) \<and> distinct (owned (workers p ! i)) \<and>
    (\<forall>j<unat n. j \<noteq> i \<longrightarrow> set (owned (workers p ! i)) \<inter> set (owned (workers p ! j)) = {})"
proof -
  note D = pool_inv_D [OF pool_reach_inv [OF assms(1)]]
  show ?thesis
    using D(8) [OF assms(2)] D(5) assms(2) unfolding trace_ok_def own_ok_def D(3) by simp
qed

theorem pool_runs_each_item_once_in_order_witness:
  "\<exists>p. pool_reach 2 (p, [(0, \<lparr>wi_req = 1::nat, wi_handler = 2::nat, wi_worker_data = ()\<rparr>, True)]) \<and>
     run_by 0 (handler_calls p) @ map (\<lambda>a. the (items p a)) (queued (workers p ! 0)) =
       [\<lparr>wi_req = 1, wi_handler = 2, wi_worker_data = ()\<rparr>] \<and>
     accepted_by 1 [(0, \<lparr>wi_req = 1::nat, wi_handler = 2::nat, wi_worker_data = ()\<rparr>, True)] = []"
proof -
  obtain p where p: "pool_reach 2 (p, [(0, \<lparr>wi_req = 1::nat, wi_handler = 2::nat, wi_worker_data = ()\<rparr>, True)])"
    using one_dispatch by blast
  show ?thesis
    using pool_runs_each_item_once_in_order [OF p, of 0] p by (intro exI [of _ p]) (auto simp: accepted_by_def)
qed

text \<open>
  C23. No operation of the pool goes wrong in any reachable state: a dispatch with any outcome of
  \<open>malloc\<close> returns, and it accepts the item exactly when the memory was there and the chosen ring has room
  for it; a worker's next step neither touches a freed item nor frees one twice; and each step of
  \<open>worker_pool_destroy\<close> works on a pool that is still allocated.
\<close>

theorem pool_operations_never_fault:
  assumes "pool_reach n (p, hs)"
  shows "(owner_pc p = Serving \<and> (\<forall>a. m = Some a \<longrightarrow> items p a = None) \<longrightarrow>
      (\<exists>ok p'. worker_pool_dispatch p m req h d = Inr (ok, p') \<and>
        (ok \<longleftrightarrow> m \<noteq> None \<and> length (ring_addrs (workers p ! unat (next_worker p mod n))) < 1024))) \<and>
    (\<forall>i<unat n. w_pc (workers p ! i) \<noteq> Exited \<longrightarrow> (\<exists>p'. worker_step i p = Inr p')) \<and>
    (\<forall>res. destroy_step p = Some res \<longrightarrow> (\<exists>p'. res = Inr p'))"
proof (intro conjI impI allI)
  note inv = pool_reach_inv [OF assms]
  show "\<exists>ok p'. worker_pool_dispatch p m req h d = Inr (ok, p') \<and>
        (ok \<longleftrightarrow> m \<noteq> None \<and> length (ring_addrs (workers p ! unat (next_worker p mod n))) < 1024)"
    if "owner_pc p = Serving \<and> (\<forall>a. m = Some a \<longrightarrow> items p a = None)"
    using dispatch_keeps_inv [OF inv, of m "\<lparr>wi_req = req, wi_handler = h, wi_worker_data = d\<rparr>"] that
      pool_inv_D(2) [OF inv] by auto
  show "\<exists>p'. worker_step i p = Inr p'" if "i < unat n" "w_pc (workers p ! i) \<noteq> Exited" for i
    using worker_step_keeps_inv [OF inv, of i] that pool_inv_D(3,7) [OF inv] by (auto simp: ring_part_ok_def)
  show "\<exists>p'. res = Inr p'" if "destroy_step p = Some res" for res
    using destroy_keeps_inv [OF inv that] by blast
qed

theorem pool_operations_never_fault_witness:
  "\<exists>ok p'. worker_pool_dispatch (fresh_pool 2 (\<lambda>_. 7)) (Some 5) (1::nat) (2::nat) () = Inr (ok, p')"
  using pool_operations_never_fault [OF pool_reach_fresh, of 2 "\<lambda>_. 7" "Some 5" "1::nat" "2::nat" "()"]
  by (auto simp: fresh_pool_def)



text \<open>
  C24. The shutdown: from every reachable state in which the event loop still serves, destroying
  the pool can run to its end; at the end every thread has exited, every queue is destroyed and
  the array is freed, and the accepted items that were still in the rings have been neither run
  nor freed.
\<close>

theorem destroy_completes_and_drops_queued_items:
  assumes "pool_reach n (p, hs)" and "owner_pc p = Serving"
  shows "(\<exists>p'. pool_step\<^sup>*\<^sup>* (p, hs) (p', hs) \<and> owner_pc p' = Destroyed) \<and>
    (\<forall>p' hs'. pool_step\<^sup>*\<^sup>* (p, hs) (p', hs') \<and> owner_pc p' = Destroyed \<longrightarrow>
      workers_freed p' \<and> (\<forall>i<unat n. stopped (workers p' ! i) \<and>
        accepted_by i hs' = run_by i (handler_calls p') @ map (\<lambda>a. the (items p' a)) (ring_addrs (workers p' ! i))) \<and>
      dom (items p') = (\<Union>i<unat n. set (ring_addrs (workers p' ! i))))"
proof (intro conjI allI impI)
  have inv: "pool_inv n (p, hs)" using pool_reach_inv [OF assms(1)] .
  have s0: "pool_step (p, hs) (p\<lparr>owner_pc := Stop_worker 0\<rparr>, hs)"
    using pool_step.begin_destroy [OF assms(2)] .
  have "\<exists>p'. pool_step\<^sup>*\<^sup>* (p\<lparr>owner_pc := Stop_worker 0\<rparr>, hs) (p', hs) \<and> owner_pc p' = Destroyed"
    using pool_step_inv [OF s0 inv] by (intro shutdown_from [where k = 0]) auto
  then show "\<exists>p'. pool_step\<^sup>*\<^sup>* (p, hs) (p', hs) \<and> owner_pc p' = Destroyed"
    using s0 by (meson converse_rtranclp_into_rtranclp)
  fix p' hs'
  assume *: "pool_step\<^sup>*\<^sup>* (p, hs) (p', hs') \<and> owner_pc p' = Destroyed"
  note D = pool_inv_D [OF pool_steps_inv [OF conjunct1 [OF *] inv]]
  have st: "workers_freed p'" "\<And>i. i < unat n \<Longrightarrow> stopped (workers p' ! i)"
    using D(3,6) * by (simp_all add: owner_ok_def)
  then have q: "\<And>i. i < unat n \<Longrightarrow> queued (workers p' ! i) = ring_addrs (workers p' ! i) \<and>
      owned (workers p' ! i) = ring_addrs (workers p' ! i)"
    by (simp add: stopped_def queued_def owned_def)
  show "workers_freed p'" by (rule st)
  show "stopped (workers p' ! i)" if "i < unat n" for i using st(2) that .
  show "accepted_by i hs' = run_by i (handler_calls p') @ map (\<lambda>a. the (items p' a)) (ring_addrs (workers p' ! i))"
    if "i < unat n" for i using D(8) [OF that] q [OF that] by (simp add: trace_ok_def)
  show "dom (items p') = (\<Union>i<unat n. set (ring_addrs (workers p' ! i)))"
    using D(3,5) q unfolding own_ok_def by simp
qed

theorem destroy_completes_and_drops_queued_items_witness:
  "\<exists>p p'. pool_reach 2 (p, [(0, \<lparr>wi_req = 1::nat, wi_handler = 2::nat, wi_worker_data = ()\<rparr>, True)]) \<and>
     pool_step\<^sup>*\<^sup>* (p, [(0, \<lparr>wi_req = 1::nat, wi_handler = 2::nat, wi_worker_data = ()\<rparr>, True)])
       (p', [(0, \<lparr>wi_req = 1::nat, wi_handler = 2::nat, wi_worker_data = ()\<rparr>, True)]) \<and> workers_freed p'"
proof -
  obtain p where p: "pool_reach 2 (p, [(0, \<lparr>wi_req = 1::nat, wi_handler = 2::nat, wi_worker_data = ()\<rparr>, True)])"
      "owner_pc p = Serving"
    using one_dispatch by blast
  show ?thesis using destroy_completes_and_drops_queued_items [OF p] p by blast
qed

end
