(* ===== verification/List_Queue.thy ===== *)
theory List_Queue
  imports Prelude
begin

text \<open>
  The intrusive queue of \<open>src/list.h\<close>: singly linked nodes and a pointer to the place where the next node
  goes, either the queue's own \<open>head\<close> or the \<open>next\<close> field of the last node. The store maps every allocated
  node to its \<open>next\<close> field; \<open>None\<close> as a pointer is \<open>NULL\<close>. The relation \<open>queue_rep\<close> ties a store and a queue to
  the list of queued nodes, and the operations refine those on lists.
\<close>

section \<open>The operations\<close>

type_synonym node = nat

text \<open>\<open>list_t **\<close>: the places a node pointer can be stored in.\<close>

datatype slot = Head_slot | Next_slot node

type_synonym list_store = "node \<rightharpoonup> node option"

record queue =
  q_head :: "node option"
  q_tail :: slot

definition load_next :: "list_store \<Rightarrow> node \<Rightarrow> node option result" where
  "load_next h a = (case h a of None \<Rightarrow> Inl UseAfterFree | Some n \<Rightarrow> Inr n)"

definition store_next :: "list_store \<Rightarrow> node \<Rightarrow> node option \<Rightarrow> list_store result" where
  "store_next h a n = guardR (a \<in> dom h) UseAfterFree (Inr (h(a \<mapsto> n)))"

definition queue_init :: "queue \<Rightarrow> queue" where
  "queue_init q = q\<lparr>q_head := None, q_tail := Head_slot\<rparr>"

definition queue_push :: "list_store \<Rightarrow> queue \<Rightarrow> node \<Rightarrow> (list_store \<times> queue) result" where
  "queue_push h q node =
     bindR (store_next h node None) (\<lambda>h.
     bindR (case q_tail q of
              Head_slot \<Rightarrow> Inr (h, q\<lparr>q_head := Some node\<rparr>)
            | Next_slot a \<Rightarrow> bindR (store_next h a (Some node)) (\<lambda>h. Inr (h, q))) (\<lambda>(h, q).
     Inr (h, q\<lparr>q_tail := Next_slot node\<rparr>)))"

definition queue_pop :: "list_store \<Rightarrow> queue \<Rightarrow> (node option \<times> queue) result" where
  "queue_pop h q =
     (case q_head q of
        None \<Rightarrow> Inr (None, q)
      | Some node \<Rightarrow>
          bindR (load_next h node) (\<lambda>n.
            let q = q\<lparr>q_head := n\<rparr>
            in Inr (Some node, if q_head q = None then q\<lparr>q_tail := Head_slot\<rparr> else q)))"

definition queue_is_empty :: "queue \<Rightarrow> bool" where
  "queue_is_empty q \<longleftrightarrow> q_head q = None"

section \<open>The queued nodes\<close>

fun path :: "list_store \<Rightarrow> node option \<Rightarrow> node list \<Rightarrow> bool" where
  "path h p [] \<longleftrightarrow> p = None"
| "path h p (a # as) \<longleftrightarrow> p = Some a \<and> (\<exists>n. h a = Some n \<and> path h n as)"

definition queue_rep :: "list_store \<Rightarrow> queue \<Rightarrow> node list \<Rightarrow> bool" where
  "queue_rep h q xs \<longleftrightarrow> path h (q_head q) xs \<and> distinct xs \<and>
     q_tail q = (if xs = [] then Head_slot else Next_slot (last xs))"

lemma path_dom: "path h p xs \<Longrightarrow> set xs \<subseteq> dom h"
  by (induction xs arbitrary: p) auto

lemma path_other: "a \<notin> set xs \<Longrightarrow> path (h(a \<mapsto> n)) p xs \<longleftrightarrow> path h p xs"
  by (induction xs arbitrary: p) auto

text \<open>Linking a node behind the last one.\<close>

lemma path_snoc:
  assumes "path h p xs" and "xs \<noteq> []" and "distinct xs" and "a \<notin> set xs"
  shows "path (h(a \<mapsto> None, last xs \<mapsto> Some a)) p (xs @ [a])"
  using assms
proof (induction xs arbitrary: p)
  case (Cons x xs)
  then obtain n where n: "h x = Some n" "path h n xs" "p = Some x" by auto
  show ?case
  proof (cases "xs = []")
    case True
    then show ?thesis using n Cons.prems by auto
  next
    case False
    then have "path (h(a \<mapsto> None, last xs \<mapsto> Some a)) n (xs @ [a])"
      using Cons.prems by (intro Cons.IH [OF n(2)]) auto
    moreover have "last xs \<noteq> x" "x \<noteq> a" using Cons.prems False last_in_set by auto
    ultimately show ?thesis using n False by (simp add: fun_upd_def)
  qed
qed simp

lemma queue_init_rep: "queue_rep h (queue_init q) []"
  by (simp add: queue_rep_def queue_init_def)

lemma queue_push_rep:
  assumes "queue_rep h q xs" and "a \<in> dom h" and "a \<notin> set xs"
  shows "\<exists>h' q'. queue_push h q a = Inr (h', q') \<and> dom h' = dom h \<and> queue_rep h' q' (xs @ [a])"
proof (cases "xs = []")
  case True
  then show ?thesis using assms by (auto simp: queue_push_def queue_rep_def store_next_def)
next
  case False
  then have "last xs \<in> dom h" using assms(1) path_dom last_in_set by (fastforce simp: queue_rep_def)
  then show ?thesis
    using assms False path_snoc [of h "q_head q" xs a]
    by (auto simp: queue_push_def queue_rep_def store_next_def)
qed

lemma queue_pop_rep:
  assumes "queue_rep h q xs"
  shows "\<exists>q'. queue_pop h q = Inr (case xs of [] \<Rightarrow> None | x # _ \<Rightarrow> Some x, q') \<and> queue_rep h q' (tl xs)"
proof (cases xs)
  case Nil
  then show ?thesis using assms by (simp add: queue_pop_def queue_rep_def)
next
  case (Cons x ys)
  then obtain n where "q_head q = Some x" "h x = Some n" "path h n ys"
    using assms by (auto simp: queue_rep_def)
  then show ?thesis
    using assms Cons by (cases ys) (auto simp: queue_pop_def queue_rep_def load_next_def Let_def)
qed

section \<open>Sequences of operations\<close>

datatype queue_op = Enqueue node | Dequeue | Test_empty

datatype queue_out = Enqueued | Dequeued "node option" | Empty bool

fun queue_step :: "queue_op \<Rightarrow> list_store \<times> queue \<Rightarrow> (queue_out \<times> list_store \<times> queue) result" where
  "queue_step (Enqueue a) (h, q) = bindR (queue_push h q a) (\<lambda>s. Inr (Enqueued, s))"
| "queue_step Dequeue (h, q) = bindR (queue_pop h q) (\<lambda>(r, q). Inr (Dequeued r, h, q))"
| "queue_step Test_empty (h, q) = Inr (Empty (queue_is_empty q), h, q)"

fun queue_run :: "queue_op list \<Rightarrow> list_store \<times> queue \<Rightarrow> (queue_out list \<times> list_store \<times> queue) result" where
  "queue_run [] s = Inr ([], s)"
| "queue_run (op # ops) s = bindR (queue_step op s) (\<lambda>(out, s). bindR (queue_run ops s) (\<lambda>(outs, s). Inr (out # outs, s)))"

text \<open>The same on lists.\<close>

fun list_step :: "queue_op \<Rightarrow> node list \<Rightarrow> queue_out \<times> node list" where
  "list_step (Enqueue a) xs = (Enqueued, xs @ [a])"
| "list_step Dequeue [] = (Dequeued None, [])"
| "list_step Dequeue (x # xs) = (Dequeued (Some x), xs)"
| "list_step Test_empty xs = (Empty (xs = []), xs)"

fun list_run :: "queue_op list \<Rightarrow> node list \<Rightarrow> queue_out list \<times> node list" where
  "list_run [] xs = ([], xs)"
| "list_run (op # ops) xs =
     (let (out, ys) = list_step op xs; (outs, zs) = list_run ops ys in (out # outs, zs))"

text \<open>A node may be pushed when it is allocated and not queued already.\<close>

fun pushes_ok :: "node set \<Rightarrow> queue_op list \<Rightarrow> node list \<Rightarrow> bool" where
  "pushes_ok nodes [] xs \<longleftrightarrow> True"
| "pushes_ok nodes (op # ops) xs \<longleftrightarrow>
     (case op of Enqueue a \<Rightarrow> a \<in> nodes \<and> a \<notin> set xs | _ \<Rightarrow> True) \<and> pushes_ok nodes ops (snd (list_step op xs))"

lemma queue_step_refines:
  assumes "queue_rep h q xs" and "pushes_ok (dom h) (op # ops) xs"
  shows "\<exists>h' q'. queue_step op (h, q) = Inr (fst (list_step op xs), h', q') \<and> dom h' = dom h \<and>
    queue_rep h' q' (snd (list_step op xs))"
proof (cases op)
  case (Enqueue a)
  then show ?thesis using queue_push_rep [OF assms(1), of a] assms(2) by auto
next
  case Dequeue
  then show ?thesis using queue_pop_rep [OF assms(1)] by (cases xs) auto
next
  case Test_empty
  then show ?thesis using assms(1) by (cases xs) (auto simp: queue_is_empty_def queue_rep_def)
qed

lemma queue_run_refines:
  assumes "queue_rep h q xs" and "pushes_ok (dom h) ops xs"
  shows "\<exists>h' q'. queue_run ops (h, q) = Inr (fst (list_run ops xs), h', q') \<and> dom h' = dom h \<and>
    queue_rep h' q' (snd (list_run ops xs))"
  using assms
proof (induction ops arbitrary: h q xs)
  case (Cons op ops)
  obtain h1 q1 where s: "queue_step op (h, q) = Inr (fst (list_step op xs), h1, q1)" "dom h1 = dom h"
      "queue_rep h1 q1 (snd (list_step op xs))"
    using queue_step_refines [OF Cons.prems] by blast
  then show ?case
    using Cons.IH [OF s(3)] Cons.prems(2) by (auto split: prod.splits)
qed simp

section \<open>Properties\<close>

text \<open>
  C21. The linked queue is a FIFO queue: after initialisation, every sequence of pushes, pops and tests in which
  a node is pushed only while it is allocated and not queued gives the answers of the queue on lists, without a
  bad access, and leaves the store and the queue standing for the list that remains.
\<close>

theorem list_queue_refines_fifo:
  assumes "pushes_ok (dom h) ops []"
  shows "\<exists>h' q'. queue_run ops (h, queue_init q) = Inr (fst (list_run ops []), h', q') \<and> dom h' = dom h \<and>
    queue_rep h' q' (snd (list_run ops []))"
  using queue_run_refines [OF queue_init_rep assms] .

theorem list_queue_refines_fifo_witness:
  "\<exists>h' q'. queue_run [Enqueue 1, Enqueue 2, Dequeue, Enqueue 1, Dequeue, Dequeue, Dequeue, Test_empty]
     ([1 \<mapsto> Some 2, 2 \<mapsto> None], queue_init \<lparr>q_head = Some 7, q_tail = Next_slot 7\<rparr>) =
     Inr ([Enqueued, Enqueued, Dequeued (Some 1), Enqueued, Dequeued (Some 2), Dequeued (Some 1), Dequeued None, Empty True], h', q')"
proof -
  have "pushes_ok (dom [1 \<mapsto> Some 2, 2 \<mapsto> None])
      [Enqueue 1, Enqueue 2, Dequeue, Enqueue 1, Dequeue, Dequeue, Dequeue, Test_empty] []"
    by simp
  from list_queue_refines_fifo [OF this, of "\<lparr>q_head = Some 7, q_tail = Next_slot 7\<rparr>"] show ?thesis
    by (auto simp del: queue_run.simps)
qed

end
