(* ===== verification/Tpcc_Kv.thy ===== *)
theory Tpcc_Kv
  imports Prelude "HOL-Library.List_Lexorder" "HOL-Library.Product_Lexorder"
begin

text \<open>
  The key encoding of \<open>src/tpcc_kv.h\<close> and \<open>src/tpcc_kv.c\<close>: the big-endian integer codecs, the
  builders that write a key into a caller's buffer and return its length, and the builders of
  the ends of key ranges. Keys are compared as the store compares them, bytewise from the
  left, which is the order of \<open>HOL-Library.List_Lexorder\<close> on byte lists. The type \<open>tkey\<close>
  names the rows a key can stand for, and \<open>key_bytes\<close> is the key of a row; the lemmas show
  that each builder writes exactly those bytes, that no two rows share a key and that the
  key ranges contain the rows they are meant to.
\<close>

section \<open>Strings and subspaces\<close>

definition c_str :: "string \<Rightarrow> byte list" where
  "c_str s = map of_char s"

definition SS_WAREHOUSE :: "byte list" where "SS_WAREHOUSE = c_str ''tpcc/w/''"
definition SS_DISTRICT :: "byte list" where "SS_DISTRICT = c_str ''tpcc/d/''"
definition SS_CUSTOMER :: "byte list" where "SS_CUSTOMER = c_str ''tpcc/c/''"
definition SS_CUST_NAME :: "byte list" where "SS_CUST_NAME = c_str ''tpcc/cn/''"
definition SS_HISTORY :: "byte list" where "SS_HISTORY = c_str ''tpcc/h/''"
definition SS_ITEM :: "byte list" where "SS_ITEM = c_str ''tpcc/i/''"
definition SS_STOCK :: "byte list" where "SS_STOCK = c_str ''tpcc/s/''"
definition SS_OORDER :: "byte list" where "SS_OORDER = c_str ''tpcc/o/''"
definition SS_OORDER_CID :: "byte list" where "SS_OORDER_CID = c_str ''tpcc/oc/''"
definition SS_NEW_ORDER :: "byte list" where "SS_NEW_ORDER = c_str ''tpcc/no/''"
definition SS_ORDER_LINE :: "byte list" where "SS_ORDER_LINE = c_str ''tpcc/ol/''"
definition SS_NEXT_O_ID :: "byte list" where "SS_NEXT_O_ID = c_str ''tpcc/nid/''"

lemmas subspace_defs = SS_WAREHOUSE_def SS_DISTRICT_def SS_CUSTOMER_def SS_CUST_NAME_def
  SS_HISTORY_def SS_ITEM_def SS_STOCK_def SS_OORDER_def SS_OORDER_CID_def SS_NEW_ORDER_def
  SS_ORDER_LINE_def SS_NEXT_O_ID_def

lemma length_subspaces [simp]:
  "length SS_WAREHOUSE = 7" "length SS_DISTRICT = 7" "length SS_CUSTOMER = 7"
  "length SS_CUST_NAME = 8" "length SS_HISTORY = 7" "length SS_ITEM = 7" "length SS_STOCK = 7"
  "length SS_OORDER = 7" "length SS_OORDER_CID = 8" "length SS_NEW_ORDER = 8"
  "length SS_ORDER_LINE = 8" "length SS_NEXT_O_ID = 9"
  by (simp_all add: subspace_defs c_str_def)

text \<open>\<open>strlen\<close> of a character array: the position of the first zero byte, which must exist.\<close>

definition c_strlen :: "byte list \<Rightarrow> nat result" where
  "c_strlen s = guardR (0 \<in> set s) OutOfBounds (Inr (length (takeWhile (\<lambda>b. b \<noteq> 0) s)))"

section \<open>Integer codecs\<close>

definition kv_encode_u32_be :: "byte list \<Rightarrow> nat \<Rightarrow> u32 \<Rightarrow> byte list result" where
  "kv_encode_u32_be buf off val =
     write_bytes buf off
       [ucast (drop_bit 24 val AND 0xFF),
        ucast (drop_bit 16 val AND 0xFF),
        ucast (drop_bit 8 val AND 0xFF),
        ucast (val AND 0xFF)]"

definition kv_decode_u32_be :: "byte list \<Rightarrow> u32 result" where
  "kv_decode_u32_be buf =
     guardR (4 \<le> length buf) OutOfBounds
       (Inr (push_bit 24 (ucast (buf ! 0)) OR push_bit 16 (ucast (buf ! 1)) OR
             push_bit 8 (ucast (buf ! 2)) OR ucast (buf ! 3)))"

definition kv_encode_next_o_id :: "byte list \<Rightarrow> i32 \<Rightarrow> byte list result" where
  "kv_encode_next_o_id buf next_o_id =
     (let val = (scast next_o_id :: i64)
      in write_bytes buf 0
       [ucast (signed_drop_bit 56 val AND 0xFF),
        ucast (signed_drop_bit 48 val AND 0xFF),
        ucast (signed_drop_bit 40 val AND 0xFF),
        ucast (signed_drop_bit 32 val AND 0xFF),
        ucast (signed_drop_bit 24 val AND 0xFF),
        ucast (signed_drop_bit 16 val AND 0xFF),
        ucast (signed_drop_bit 8 val AND 0xFF),
        ucast (val AND 0xFF)])"

text \<open>
  The decoder shifts the first byte into the sign position of a signed 64-bit integer, which
  C defines only while the result is representable.
\<close>

definition kv_decode_next_o_id :: "byte list \<Rightarrow> int \<Rightarrow> i32 result" where
  "kv_decode_next_o_id buf len =
     (if len < 8 then Inr 0
      else guardR (8 \<le> length buf) OutOfBounds
        (guardR (buf ! 0 < 0x80) SignedOverflow
          (let val = push_bit 56 (ucast (buf ! 0)) OR push_bit 48 (ucast (buf ! 1)) OR
                     push_bit 40 (ucast (buf ! 2)) OR push_bit 32 (ucast (buf ! 3)) OR
                     push_bit 24 (ucast (buf ! 4)) OR push_bit 16 (ucast (buf ! 5)) OR
                     push_bit 8 (ucast (buf ! 6)) OR (ucast (buf ! 7) :: i64)
           in Inr (ucast val))))"

section \<open>Key builders\<close>

definition append_prefix :: "byte list \<Rightarrow> byte list \<Rightarrow> (byte list \<times> nat) result" where
  "append_prefix buf prefix =
     bindR (write_bytes buf 0 prefix) (\<lambda>buf. Inr (buf, length prefix))"

definition kv_warehouse_key :: "byte list \<Rightarrow> u32 \<Rightarrow> (byte list \<times> nat) result" where
  "kv_warehouse_key buf w_id =
     bindR (append_prefix buf SS_WAREHOUSE) (\<lambda>(buf, off).
     bindR (kv_encode_u32_be buf off w_id) (\<lambda>buf.
     Inr (buf, off + 4)))"

definition kv_district_key :: "byte list \<Rightarrow> u32 \<Rightarrow> u32 \<Rightarrow> (byte list \<times> nat) result" where
  "kv_district_key buf w_id d_id =
     bindR (append_prefix buf SS_DISTRICT) (\<lambda>(buf, off).
     bindR (kv_encode_u32_be buf off w_id) (\<lambda>buf. let off = off + 4 in
     bindR (kv_encode_u32_be buf off d_id) (\<lambda>buf.
     Inr (buf, off + 4))))"

definition kv_customer_key :: "byte list \<Rightarrow> u32 \<Rightarrow> u32 \<Rightarrow> u32 \<Rightarrow> (byte list \<times> nat) result" where
  "kv_customer_key buf w_id d_id c_id =
     bindR (append_prefix buf SS_CUSTOMER) (\<lambda>(buf, off).
     bindR (kv_encode_u32_be buf off w_id) (\<lambda>buf. let off = off + 4 in
     bindR (kv_encode_u32_be buf off d_id) (\<lambda>buf. let off = off + 4 in
     bindR (kv_encode_u32_be buf off c_id) (\<lambda>buf.
     Inr (buf, off + 4)))))"

definition kv_customer_name_key ::
  "byte list \<Rightarrow> u32 \<Rightarrow> u32 \<Rightarrow> byte list \<Rightarrow> byte list \<Rightarrow> u32 \<Rightarrow> (byte list \<times> nat) result" where
  "kv_customer_name_key buf w_id d_id c_last c_first c_id =
     bindR (append_prefix buf SS_CUST_NAME) (\<lambda>(buf, off).
     bindR (kv_encode_u32_be buf off w_id) (\<lambda>buf. let off = off + 4 in
     bindR (kv_encode_u32_be buf off d_id) (\<lambda>buf. let off = off + 4 in
     bindR (c_strlen c_last) (\<lambda>slen.
     bindR (write_bytes buf off (take slen c_last)) (\<lambda>buf. let off = off + slen in
     bindR (write_bytes buf off [0]) (\<lambda>buf. let off = off + 1 in
     bindR (c_strlen c_first) (\<lambda>slen.
     bindR (write_bytes buf off (take slen c_first)) (\<lambda>buf. let off = off + slen in
     bindR (write_bytes buf off [0]) (\<lambda>buf. let off = off + 1 in
     bindR (kv_encode_u32_be buf off c_id) (\<lambda>buf.
     Inr (buf, off + 4)))))))))))"

definition kv_item_key :: "byte list \<Rightarrow> u32 \<Rightarrow> (byte list \<times> nat) result" where
  "kv_item_key buf i_id =
     bindR (append_prefix buf SS_ITEM) (\<lambda>(buf, off).
     bindR (kv_encode_u32_be buf off i_id) (\<lambda>buf.
     Inr (buf, off + 4)))"

definition kv_stock_key :: "byte list \<Rightarrow> u32 \<Rightarrow> u32 \<Rightarrow> (byte list \<times> nat) result" where
  "kv_stock_key buf w_id i_id =
     bindR (append_prefix buf SS_STOCK) (\<lambda>(buf, off).
     bindR (kv_encode_u32_be buf off w_id) (\<lambda>buf. let off = off + 4 in
     bindR (kv_encode_u32_be buf off i_id) (\<lambda>buf.
     Inr (buf, off + 4))))"

definition kv_oorder_key :: "byte list \<Rightarrow> u32 \<Rightarrow> u32 \<Rightarrow> u32 \<Rightarrow> (byte list \<times> nat) result" where
  "kv_oorder_key buf w_id d_id o_id =
     bindR (append_prefix buf SS_OORDER) (\<lambda>(buf, off).
     bindR (kv_encode_u32_be buf off w_id) (\<lambda>buf. let off = off + 4 in
     bindR (kv_encode_u32_be buf off d_id) (\<lambda>buf. let off = off + 4 in
     bindR (kv_encode_u32_be buf off o_id) (\<lambda>buf.
     Inr (buf, off + 4)))))"

definition kv_new_order_key :: "byte list \<Rightarrow> u32 \<Rightarrow> u32 \<Rightarrow> u32 \<Rightarrow> (byte list \<times> nat) result" where
  "kv_new_order_key buf w_id d_id o_id =
     bindR (append_prefix buf SS_NEW_ORDER) (\<lambda>(buf, off).
     bindR (kv_encode_u32_be buf off w_id) (\<lambda>buf. let off = off + 4 in
     bindR (kv_encode_u32_be buf off d_id) (\<lambda>buf. let off = off + 4 in
     bindR (kv_encode_u32_be buf off o_id) (\<lambda>buf.
     Inr (buf, off + 4)))))"

definition kv_order_line_key ::
  "byte list \<Rightarrow> u32 \<Rightarrow> u32 \<Rightarrow> u32 \<Rightarrow> u32 \<Rightarrow> (byte list \<times> nat) result" where
  "kv_order_line_key buf w_id d_id o_id ol_number =
     bindR (append_prefix buf SS_ORDER_LINE) (\<lambda>(buf, off).
     bindR (kv_encode_u32_be buf off w_id) (\<lambda>buf. let off = off + 4 in
     bindR (kv_encode_u32_be buf off d_id) (\<lambda>buf. let off = off + 4 in
     bindR (kv_encode_u32_be buf off o_id) (\<lambda>buf. let off = off + 4 in
     bindR (kv_encode_u32_be buf off ol_number) (\<lambda>buf.
     Inr (buf, off + 4))))))"

definition kv_next_o_id_key :: "byte list \<Rightarrow> u32 \<Rightarrow> u32 \<Rightarrow> (byte list \<times> nat) result" where
  "kv_next_o_id_key buf w_id d_id =
     bindR (append_prefix buf SS_NEXT_O_ID) (\<lambda>(buf, off).
     bindR (kv_encode_u32_be buf off w_id) (\<lambda>buf. let off = off + 4 in
     bindR (kv_encode_u32_be buf off d_id) (\<lambda>buf.
     Inr (buf, off + 4))))"

section \<open>Range builders\<close>

definition kv_stock_range_begin :: "byte list \<Rightarrow> u32 \<Rightarrow> (byte list \<times> nat) result" where
  "kv_stock_range_begin buf w_id =
     bindR (append_prefix buf SS_STOCK) (\<lambda>(buf, off).
     bindR (kv_encode_u32_be buf off w_id) (\<lambda>buf. let off = off + 4 in
     bindR (kv_encode_u32_be buf off 0) (\<lambda>buf.
     Inr (buf, off + 4))))"

definition kv_stock_range_end :: "byte list \<Rightarrow> u32 \<Rightarrow> (byte list \<times> nat) result" where
  "kv_stock_range_end buf w_id =
     bindR (append_prefix buf SS_STOCK) (\<lambda>(buf, off).
     bindR (kv_encode_u32_be buf off w_id) (\<lambda>buf. let off = off + 4 in
     bindR (kv_encode_u32_be buf off 0xFFFFFFFF) (\<lambda>buf.
     Inr (buf, off + 4))))"

definition kv_new_order_range_begin :: "byte list \<Rightarrow> u32 \<Rightarrow> u32 \<Rightarrow> (byte list \<times> nat) result" where
  "kv_new_order_range_begin buf w_id d_id =
     bindR (append_prefix buf SS_NEW_ORDER) (\<lambda>(buf, off).
     bindR (kv_encode_u32_be buf off w_id) (\<lambda>buf. let off = off + 4 in
     bindR (kv_encode_u32_be buf off d_id) (\<lambda>buf. let off = off + 4 in
     bindR (kv_encode_u32_be buf off 0) (\<lambda>buf.
     Inr (buf, off + 4)))))"

definition kv_new_order_range_end :: "byte list \<Rightarrow> u32 \<Rightarrow> u32 \<Rightarrow> (byte list \<times> nat) result" where
  "kv_new_order_range_end buf w_id d_id =
     bindR (append_prefix buf SS_NEW_ORDER) (\<lambda>(buf, off).
     bindR (kv_encode_u32_be buf off w_id) (\<lambda>buf. let off = off + 4 in
     bindR (kv_encode_u32_be buf off d_id) (\<lambda>buf. let off = off + 4 in
     bindR (kv_encode_u32_be buf off 0xFFFFFFFF) (\<lambda>buf.
     Inr (buf, off + 4)))))"

definition kv_order_line_range_begin ::
  "byte list \<Rightarrow> u32 \<Rightarrow> u32 \<Rightarrow> u32 \<Rightarrow> (byte list \<times> nat) result" where
  "kv_order_line_range_begin buf w_id d_id o_id =
     bindR (append_prefix buf SS_ORDER_LINE) (\<lambda>(buf, off).
     bindR (kv_encode_u32_be buf off w_id) (\<lambda>buf. let off = off + 4 in
     bindR (kv_encode_u32_be buf off d_id) (\<lambda>buf. let off = off + 4 in
     bindR (kv_encode_u32_be buf off o_id) (\<lambda>buf. let off = off + 4 in
     bindR (kv_encode_u32_be buf off 0) (\<lambda>buf.
     Inr (buf, off + 4))))))"

definition kv_order_line_range_end ::
  "byte list \<Rightarrow> u32 \<Rightarrow> u32 \<Rightarrow> u32 \<Rightarrow> (byte list \<times> nat) result" where
  "kv_order_line_range_end buf w_id d_id o_id =
     bindR (append_prefix buf SS_ORDER_LINE) (\<lambda>(buf, off).
     bindR (kv_encode_u32_be buf off w_id) (\<lambda>buf. let off = off + 4 in
     bindR (kv_encode_u32_be buf off d_id) (\<lambda>buf. let off = off + 4 in
     bindR (kv_encode_u32_be buf off o_id) (\<lambda>buf. let off = off + 4 in
     bindR (kv_encode_u32_be buf off 0xFFFFFFFF) (\<lambda>buf.
     Inr (buf, off + 4))))))"

text \<open>The history key, which \<open>src/handlers/tpcc_payment.c\<close> writes itself.\<close>

definition kv_history_key :: "byte list \<Rightarrow> u32 \<Rightarrow> u32 \<Rightarrow> u32 \<Rightarrow> u32 \<Rightarrow> i64 \<Rightarrow> (byte list \<times> nat) result" where
  "kv_history_key hkey w_id c_w_id c_d_id c_id now =
     bindR (write_bytes hkey 0 SS_HISTORY) (\<lambda>hkey. let hlen = length SS_HISTORY in
     bindR (kv_encode_u32_be hkey hlen w_id) (\<lambda>hkey. let hlen = hlen + 4 in
     bindR (kv_encode_u32_be hkey hlen c_w_id) (\<lambda>hkey. let hlen = hlen + 4 in
     bindR (kv_encode_u32_be hkey hlen c_d_id) (\<lambda>hkey. let hlen = hlen + 4 in
     bindR (kv_encode_u32_be hkey hlen c_id) (\<lambda>hkey. let hlen = hlen + 4 in
     bindR (kv_encode_u32_be hkey hlen (ucast (now AND 0xFFFFFFFF))) (\<lambda>hkey. let hlen = hlen + 4 in
     Inr (hkey, hlen)))))))"

section \<open>What the codecs write\<close>

lemma ucast_and_FF: "ucast (w AND 0xFF :: 'a::len word) = (ucast w :: byte)"
proof -
  have "(0xFF :: 'a word) = mask 8" by (simp add: mask_eq_exp_minus_1)
  then have "w AND 0xFF = take_bit 8 w" by (simp only: take_bit_eq_mask)
  then have "ucast (w AND 0xFF) = (ucast (take_bit 8 w) :: byte)" by (simp only:)
  also have "\<dots> = ucast w"
    by (rule bit_word_eqI) (simp only: bit_ucast_iff bit_take_bit_iff, auto)
  finally show ?thesis .
qed

lemma encode_bytes_eq:
  "[ucast (drop_bit 24 val AND 0xFF), ucast (drop_bit 16 val AND 0xFF),
    ucast (drop_bit 8 val AND 0xFF), ucast (val AND 0xFF)] = be_bytes 4 (val :: u32)"
  unfolding ucast_and_FF
  by (simp only: numeral_eq_Suc pred_numeral_simps BitM.simps be_bytes.simps drop_bit_drop_bit append.simps)
    (simp only: add_Suc add_Suc_right add_0 add_0_right)

lemma kv_encode_u32_be_eq: "kv_encode_u32_be buf off val = write_bytes buf off (be_bytes 4 val)"
  by (simp only: kv_encode_u32_be_def encode_bytes_eq)

lemma append_prefix_eq:
  "length prefix \<le> length buf \<Longrightarrow>
   append_prefix buf prefix = Inr (prefix @ drop (length prefix) buf, length prefix)"
  by (simp add: append_prefix_def write_bytes_def)

lemmas key_builder_simps = append_prefix_eq kv_encode_u32_be_eq write_bytes_def Let_def

section \<open>Rows and their keys\<close>

datatype tkey =
    KWarehouse u32
  | KDistrict u32 u32
  | KCustomer u32 u32 u32
  | KHistory u32 u32 u32 u32 u32
  | KItem u32
  | KStock u32 u32
  | KOorder u32 u32 u32
  | KNewOrder u32 u32 u32
  | KOrderLine u32 u32 u32 u32
  | KNextOId u32 u32

abbreviation be32 :: "u32 \<Rightarrow> byte list" where
  "be32 w \<equiv> be_bytes 4 w"

fun key_bytes :: "tkey \<Rightarrow> byte list" where
  "key_bytes (KWarehouse w) = SS_WAREHOUSE @ be32 w"
| "key_bytes (KDistrict w d) = SS_DISTRICT @ be32 w @ be32 d"
| "key_bytes (KCustomer w d c) = SS_CUSTOMER @ be32 w @ be32 d @ be32 c"
| "key_bytes (KHistory w cw cd c now) = SS_HISTORY @ be32 w @ be32 cw @ be32 cd @ be32 c @ be32 now"
| "key_bytes (KItem i) = SS_ITEM @ be32 i"
| "key_bytes (KStock w i) = SS_STOCK @ be32 w @ be32 i"
| "key_bytes (KOorder w d n) = SS_OORDER @ be32 w @ be32 d @ be32 n"
| "key_bytes (KNewOrder w d n) = SS_NEW_ORDER @ be32 w @ be32 d @ be32 n"
| "key_bytes (KOrderLine w d n l) = SS_ORDER_LINE @ be32 w @ be32 d @ be32 n @ be32 l"
| "key_bytes (KNextOId w d) = SS_NEXT_O_ID @ be32 w @ be32 d"

text \<open>The result of a builder on a buffer: the key, then what was in the buffer, and the key's length.\<close>

definition built :: "byte list \<Rightarrow> byte list \<Rightarrow> byte list \<times> nat" where
  "built buf key = (key @ drop (length key) buf, length key)"

lemma key_builders_eq:
  assumes "32 \<le> length buf"
  shows kv_warehouse_key_eq: "kv_warehouse_key buf w = Inr (built buf (key_bytes (KWarehouse w)))"
    and kv_district_key_eq: "kv_district_key buf w d = Inr (built buf (key_bytes (KDistrict w d)))"
    and kv_customer_key_eq: "kv_customer_key buf w d c = Inr (built buf (key_bytes (KCustomer w d c)))"
    and kv_item_key_eq: "kv_item_key buf i = Inr (built buf (key_bytes (KItem i)))"
    and kv_stock_key_eq: "kv_stock_key buf w i = Inr (built buf (key_bytes (KStock w i)))"
    and kv_oorder_key_eq: "kv_oorder_key buf w d n = Inr (built buf (key_bytes (KOorder w d n)))"
    and kv_new_order_key_eq: "kv_new_order_key buf w d n = Inr (built buf (key_bytes (KNewOrder w d n)))"
    and kv_order_line_key_eq:
      "kv_order_line_key buf w d n l = Inr (built buf (key_bytes (KOrderLine w d n l)))"
    and kv_next_o_id_key_eq: "kv_next_o_id_key buf w d = Inr (built buf (key_bytes (KNextOId w d)))"
  using assms
  by (simp_all add: built_def key_builder_simps kv_warehouse_key_def kv_district_key_def
      kv_customer_key_def kv_item_key_def kv_stock_key_def kv_oorder_key_def kv_new_order_key_def
      kv_order_line_key_def kv_next_o_id_key_def)

lemma kv_history_key_eq:
  assumes "32 \<le> length buf"
  shows "kv_history_key buf w cw cd c now =
    Inr (built buf (key_bytes (KHistory w cw cd c (ucast (now AND 0xFFFFFFFF)))))"
  using assms by (simp add: built_def key_builder_simps kv_history_key_def)

lemma range_builders_eq:
  assumes "32 \<le> length buf"
  shows "kv_stock_range_begin buf w = Inr (built buf (key_bytes (KStock w 0)))"
    and "kv_stock_range_end buf w = Inr (built buf (key_bytes (KStock w 0xFFFFFFFF)))"
    and "kv_new_order_range_begin buf w d = Inr (built buf (key_bytes (KNewOrder w d 0)))"
    and "kv_new_order_range_end buf w d = Inr (built buf (key_bytes (KNewOrder w d 0xFFFFFFFF)))"
    and "kv_order_line_range_begin buf w d n = Inr (built buf (key_bytes (KOrderLine w d n 0)))"
    and "kv_order_line_range_end buf w d n = Inr (built buf (key_bytes (KOrderLine w d n 0xFFFFFFFF)))"
  using assms
  by (simp_all add: built_def key_builder_simps kv_stock_range_begin_def kv_stock_range_end_def
      kv_new_order_range_begin_def kv_new_order_range_end_def kv_order_line_range_begin_def
      kv_order_line_range_end_def)

section \<open>Key order\<close>

lemma lex_append_iff:
  fixes a b x y :: "byte list"
  assumes "length a = length b"
  shows "a @ x < b @ y \<longleftrightarrow> a < b \<or> a = b \<and> x < y"
  using assms by (induction a b rule: list_induct2) auto

lemma lex_append_le_iff:
  fixes a b x y :: "byte list"
  assumes "length a = length b"
  shows "a @ x \<le> b @ y \<longleftrightarrow> a < b \<or> a = b \<and> x \<le> y"
  using lex_append_iff [OF assms, of x y] assms by (auto simp: order_le_less)

lemma lex_be_nat_iff:
  assumes "length xs = length ys"
  shows "xs < ys \<longleftrightarrow> be_nat 0 xs < be_nat 0 ys"
  using assms
proof (induction xs ys rule: list_induct2)
  case (Cons x xs y ys)
  let ?p = "256 ^ length xs :: nat"
  have xs: "be_nat 0 (x # xs) = unat x * ?p + be_nat 0 xs"
    and ys: "be_nat 0 (y # ys) = unat y * ?p + be_nat 0 ys"
    using be_nat_acc [of "unat x" xs] be_nat_acc [of "unat y" ys] Cons.hyps by simp_all
  have small: "be_nat 0 xs < ?p" "be_nat 0 ys < ?p"
    using be_nat_less [of xs] be_nat_less [of ys] Cons.hyps by simp_all
  have step: "be_nat 0 (u # us) < be_nat 0 (v # vs)"
    if "u < v" "length us = length vs" for u v us vs
  proof -
    have "(unat u + 1) * 256 ^ length us \<le> unat v * 256 ^ length us"
      using that(1) by (intro mult_right_mono) (simp_all add: word_less_nat_alt)
    then show ?thesis
      using be_nat_acc [of "unat u" us] be_nat_acc [of "unat v" vs] be_nat_less [of us] that(2)
      by simp
  qed
  consider "x < y" | "x = y" | "y < x" by force
  then show ?case
  proof cases
    case 1 then show ?thesis using step [of x y xs ys] Cons.hyps by simp
  next
    case 2 then show ?thesis using Cons.IH xs ys by simp
  next
    case 3 then show ?thesis using step [of y x ys xs] Cons.hyps by auto
  qed
qed simp

lemma unat_mod_full:
  assumes "8 * n = LENGTH('a::len)"
  shows "unat (w :: 'a word) mod 256 ^ n = unat w"
proof -
  have "(256::nat) ^ n = 2 ^ LENGTH('a)"
    using assms power_mult [of "2::nat" 8 n] by simp
  then show ?thesis using unsigned_less [of w, where ?'a = nat] by simp
qed

lemma be32_less [simp]: "be32 a < be32 b \<longleftrightarrow> a < b"
  using unat_mod_full [of 4 a] unat_mod_full [of 4 b]
  by (simp add: lex_be_nat_iff be_nat_be_bytes word_less_nat_alt)

lemma be_word_be32: "be_word (be32 w) = w"
  by (rule be_word_be_bytes) simp

lemma be32_inject [simp]: "be32 a = be32 b \<longleftrightarrow> a = b"
  by (metis be_word_be32)

lemma be32_le [simp]: "be32 a \<le> be32 b \<longleftrightarrow> a \<le> b"
  by (auto simp: order_le_less)

text \<open>Subspaces are told apart by their first nine bytes.\<close>

lemma subspace_bytes:
  "SS_WAREHOUSE = [116, 112, 99, 99, 47, 119, 47]"
  "SS_DISTRICT = [116, 112, 99, 99, 47, 100, 47]"
  "SS_CUSTOMER = [116, 112, 99, 99, 47, 99, 47]"
  "SS_CUST_NAME = [116, 112, 99, 99, 47, 99, 110, 47]"
  "SS_HISTORY = [116, 112, 99, 99, 47, 104, 47]"
  "SS_ITEM = [116, 112, 99, 99, 47, 105, 47]"
  "SS_STOCK = [116, 112, 99, 99, 47, 115, 47]"
  "SS_OORDER = [116, 112, 99, 99, 47, 111, 47]"
  "SS_OORDER_CID = [116, 112, 99, 99, 47, 111, 99, 47]"
  "SS_NEW_ORDER = [116, 112, 99, 99, 47, 110, 111, 47]"
  "SS_ORDER_LINE = [116, 112, 99, 99, 47, 111, 108, 47]"
  "SS_NEXT_O_ID = [116, 112, 99, 99, 47, 110, 105, 100, 47]"
  by (simp_all add: subspace_defs c_str_def)

lemma key_bytes_inj: "key_bytes a = key_bytes b \<Longrightarrow> a = b"
  by (cases a; cases b) (simp_all add: subspace_bytes)

section \<open>Round trips of the codecs\<close>

text \<open>Byte \<open>k\<close> bits up, put back in its place, contributes the bits from \<open>k\<close> to \<open>k + 7\<close>.\<close>

lemma bit_byte_slot:
  fixes v :: "'a::len word"
  shows "bit (push_bit k (ucast (ucast (drop_bit k v) :: byte)) :: 'a word) n \<longleftrightarrow>
    k \<le> n \<and> n < k + 8 \<and> bit v n"
  by (simp only: bit_push_bit_iff bit_ucast_iff bit_drop_bit_eq) (auto dest: bit_imp_le_length)

lemma bit_byte_slot_0:
  fixes v :: "'a::len word"
  shows "bit (ucast (ucast v :: byte) :: 'a word) n \<longleftrightarrow> n < 8 \<and> bit v n"
  using bit_byte_slot [of 0 v n] by simp

lemma or_bytes_u32:
  fixes v :: u32 and b0 b1 b2 b3 :: byte
  assumes "b0 = ucast (drop_bit 24 v)" and "b1 = ucast (drop_bit 16 v)"
    and "b2 = ucast (drop_bit 8 v)" and "b3 = ucast v"
  shows "push_bit 24 (ucast b0) OR push_bit 16 (ucast b1) OR push_bit 8 (ucast b2) OR ucast b3 = v"
  unfolding assms
  by (rule bit_word_eqI) (simp only: bit_or_iff bit_byte_slot bit_byte_slot_0, auto)

lemma kv_decode_u32_be_be32: "kv_decode_u32_be (be32 w @ rest) = Inr w"
proof -
  obtain b0 b1 b2 b3 :: byte where b: "b0 = ucast (drop_bit 24 w)" "b1 = ucast (drop_bit 16 w)"
    "b2 = ucast (drop_bit 8 w)" "b3 = ucast w" by blast
  have "be32 w = [b0, b1, b2, b3]"
    by (simp only: b ucast_and_FF flip: encode_bytes_eq)
  then show ?thesis
    by (simp add: kv_decode_u32_be_def or_bytes_u32 [OF b])
qed

lemma or_bytes_i64:
  fixes v :: i64 and b0 b1 b2 b3 b4 b5 b6 b7 :: byte
  assumes "b0 = ucast (drop_bit 56 v)" and "b1 = ucast (drop_bit 48 v)"
    and "b2 = ucast (drop_bit 40 v)" and "b3 = ucast (drop_bit 32 v)"
    and "b4 = ucast (drop_bit 24 v)" and "b5 = ucast (drop_bit 16 v)"
    and "b6 = ucast (drop_bit 8 v)" and "b7 = ucast v"
  shows "push_bit 56 (ucast b0) OR push_bit 48 (ucast b1) OR push_bit 40 (ucast b2) OR
    push_bit 32 (ucast b3) OR push_bit 24 (ucast b4) OR push_bit 16 (ucast b5) OR
    push_bit 8 (ucast b6) OR ucast b7 = v"
  unfolding assms
  by (rule bit_word_eqI) (simp only: bit_or_iff bit_byte_slot bit_byte_slot_0, auto)

text \<open>Masked to a byte, an arithmetic shift of a 64-bit value is the logical shift.\<close>

lemma ucast_signed_drop_bit:
  fixes v :: i64
  assumes "k + 8 \<le> 64"
  shows "(ucast (signed_drop_bit k v) :: byte) = ucast (drop_bit k v)"
  by (rule bit_word_eqI)
    (use assms in \<open>simp only: bit_ucast_iff bit_signed_drop_bit_iff bit_drop_bit_eq, auto\<close>)

lemma be_bytes_8: "be_bytes 8 (v :: i64) =
    [ucast (drop_bit 56 v), ucast (drop_bit 48 v), ucast (drop_bit 40 v), ucast (drop_bit 32 v),
     ucast (drop_bit 24 v), ucast (drop_bit 16 v), ucast (drop_bit 8 v), ucast v]"
  by (simp only: numeral_eq_Suc pred_numeral_simps BitM.simps be_bytes.simps drop_bit_drop_bit append.simps)
    (simp only: add_Suc add_Suc_right add_0 add_0_right)

lemma kv_encode_next_o_id_eq:
  assumes "8 \<le> length buf"
  shows "kv_encode_next_o_id buf n = Inr (be_bytes 8 (scast n :: i64) @ drop 8 buf)"
proof -
  have "kv_encode_next_o_id buf n = write_bytes buf 0 (be_bytes 8 (scast n :: i64))"
    unfolding kv_encode_next_o_id_def Let_def be_bytes_8 ucast_and_FF
    by (subst ucast_signed_drop_bit, simp)+ (rule refl)
  then show ?thesis using assms by (simp add: write_bytes_def)
qed

lemma scast_nonneg_top:
  fixes n :: i32
  assumes "0 \<le> sint n"
  shows "(ucast (drop_bit 56 (scast n :: i64)) :: byte) = 0" and "ucast (scast n :: i64) = n"
proof -
  have nb: "\<not> bit n 31" using assms bit_last_iff [of n] by simp
  show "(ucast (drop_bit 56 (scast n :: i64)) :: byte) = 0"
    by (rule bit_word_eqI)
      (simp only: bit_ucast_iff bit_drop_bit_eq, use nb in \<open>auto simp: bit_signed_iff min_def\<close>)
  show "ucast (scast n :: i64) = n"
  proof (rule bit_word_eqI)
    fix i assume "i < LENGTH(32)"
    then have "min 31 i = i" by simp
    then show "bit (ucast (scast n :: i64) :: i32) i = bit n i"
      using \<open>i < LENGTH(32)\<close> by (simp add: bit_ucast_iff bit_signed_iff)
  qed
qed

lemma kv_decode_next_o_id_encoded:
  assumes "0 \<le> sint n"
  shows "kv_decode_next_o_id (be_bytes 8 (scast n :: i64) @ rest) 8 = Inr n"
proof -
  define v where "v = (scast n :: i64)"
  obtain b0 b1 b2 b3 b4 b5 b6 b7 :: byte where b: "b0 = ucast (drop_bit 56 v)"
    "b1 = ucast (drop_bit 48 v)" "b2 = ucast (drop_bit 40 v)" "b3 = ucast (drop_bit 32 v)"
    "b4 = ucast (drop_bit 24 v)" "b5 = ucast (drop_bit 16 v)" "b6 = ucast (drop_bit 8 v)"
    "b7 = ucast v" by blast
  have "be_bytes 8 v = [b0, b1, b2, b3, b4, b5, b6, b7]"
    by (simp only: be_bytes_8 b)
  moreover have "b0 = 0" unfolding b(1) v_def by (rule scast_nonneg_top [OF assms])
  ultimately show ?thesis
    using or_bytes_i64 [OF b] scast_nonneg_top(2) [OF assms]
    by (simp add: kv_decode_next_o_id_def flip: v_def)
qed

section \<open>Keys by row\<close>

text \<open>The builder of each kind of row.\<close>

fun build_key :: "tkey \<Rightarrow> byte list \<Rightarrow> (byte list \<times> nat) result" where
  "build_key (KWarehouse w) buf = kv_warehouse_key buf w"
| "build_key (KDistrict w d) buf = kv_district_key buf w d"
| "build_key (KCustomer w d c) buf = kv_customer_key buf w d c"
| "build_key (KHistory w cw cd c now) buf = kv_history_key buf w cw cd c (ucast now)"
| "build_key (KItem i) buf = kv_item_key buf i"
| "build_key (KStock w i) buf = kv_stock_key buf w i"
| "build_key (KOorder w d n) buf = kv_oorder_key buf w d n"
| "build_key (KNewOrder w d n) buf = kv_new_order_key buf w d n"
| "build_key (KOrderLine w d n l) buf = kv_order_line_key buf w d n l"
| "build_key (KNextOId w d) buf = kv_next_o_id_key buf w d"

lemma ucast_low_half: "ucast (ucast (t :: u32) AND 0xFFFFFFFF :: i64) = t"
proof -
  have "(0xFFFFFFFF :: i64) = mask 32" by (simp add: mask_eq_exp_minus_1)
  then have "ucast t AND 0xFFFFFFFF = take_bit 32 (ucast t :: i64)" by (simp only: take_bit_eq_mask)
  then have "ucast (ucast t AND 0xFFFFFFFF :: i64) = (ucast (take_bit 32 (ucast t :: i64)) :: u32)"
    by (simp only:)
  also have "\<dots> = t"
    by (rule bit_word_eqI) (simp only: bit_ucast_iff bit_take_bit_iff, auto)
  finally show ?thesis .
qed

lemma build_key_eq:
  assumes "32 \<le> length buf"
  shows "build_key t buf = Inr (built buf (key_bytes t))"
  by (cases t; simp only: build_key.simps key_builders_eq [OF assms] kv_history_key_eq [OF assms]
      ucast_low_half)

lemma built_key [simp]: "built buf key = (b, n) \<Longrightarrow> take n b = key"
  by (auto simp: built_def)

lemma length_key_bytes: "length (key_bytes t) \<le> 27"
  by (cases t) simp_all

text \<open>
  What a caller hands to the store: it lets a builder write into a local array of 64 bytes,
  whose contents are indeterminate before (zeros here; by \<open>build_key_eq\<close> they do not matter),
  and passes the first \<open>klen\<close> bytes.
\<close>

definition key64 :: "(byte list \<Rightarrow> (byte list \<times> nat) result) \<Rightarrow> byte list result" where
  "key64 builder = bindR (builder (replicate 64 0)) (\<lambda>(buf, klen). Inr (take klen buf))"

lemma key64_simps [simp]:
  "key64 (\<lambda>b. kv_warehouse_key b w) = Inr (key_bytes (KWarehouse w))"
  "key64 (\<lambda>b. kv_district_key b w d) = Inr (key_bytes (KDistrict w d))"
  "key64 (\<lambda>b. kv_customer_key b w d c) = Inr (key_bytes (KCustomer w d c))"
  "key64 (\<lambda>b. kv_item_key b i) = Inr (key_bytes (KItem i))"
  "key64 (\<lambda>b. kv_stock_key b w i) = Inr (key_bytes (KStock w i))"
  "key64 (\<lambda>b. kv_oorder_key b w d n) = Inr (key_bytes (KOorder w d n))"
  "key64 (\<lambda>b. kv_new_order_key b w d n) = Inr (key_bytes (KNewOrder w d n))"
  "key64 (\<lambda>b. kv_order_line_key b w d n l) = Inr (key_bytes (KOrderLine w d n l))"
  "key64 (\<lambda>b. kv_next_o_id_key b w d) = Inr (key_bytes (KNextOId w d))"
  "key64 (\<lambda>b. kv_stock_range_begin b w) = Inr (key_bytes (KStock w 0))"
  "key64 (\<lambda>b. kv_stock_range_end b w) = Inr (key_bytes (KStock w 0xFFFFFFFF))"
  by (simp_all add: key64_def key_builders_eq range_builders_eq built_def del: key_bytes.simps)

text \<open>The history key is built in an array of 128 bytes.\<close>

definition key128 :: "(byte list \<Rightarrow> (byte list \<times> nat) result) \<Rightarrow> byte list result" where
  "key128 builder = bindR (builder (replicate 128 0)) (\<lambda>(buf, klen). Inr (take klen buf))"

lemma ucast_low_word: "ucast (now AND 0xFFFFFFFF :: i64) = (ucast now :: u32)"
proof -
  have "(0xFFFFFFFF :: i64) = mask 32" by (simp add: mask_eq_exp_minus_1)
  then have "now AND 0xFFFFFFFF = take_bit 32 now" by (simp only: take_bit_eq_mask)
  then show ?thesis
    by (simp only:) (rule bit_word_eqI, simp add: bit_unsigned_iff bit_take_bit_iff)
qed

lemma key128_history [simp]:
  "key128 (\<lambda>b. kv_history_key b w cw cd c now) = Inr (key_bytes (KHistory w cw cd c (ucast now)))"
  by (simp add: key128_def kv_history_key_eq built_def ucast_low_word del: key_bytes.simps)

text \<open>What lies between two stock keys of one warehouse, whatever the row.\<close>

lemma stock_range_iff:
  "key_bytes (KStock w 0) \<le> key_bytes t \<and> key_bytes t < key_bytes (KStock w 0xFFFFFFFF) \<longleftrightarrow>
   (\<exists>i. t = KStock w i \<and> i < 0xFFFFFFFF)"
  by (cases t)
    (auto simp: subspace_bytes lex_append_iff lex_append_le_iff)

lemma new_order_range_iff:
  "key_bytes (KNewOrder w d 0) \<le> key_bytes t \<and> key_bytes t < key_bytes (KNewOrder w d 0xFFFFFFFF) \<longleftrightarrow>
   (\<exists>n. t = KNewOrder w d n \<and> n < 0xFFFFFFFF)"
  by (cases t)
    (auto simp: subspace_bytes lex_append_iff lex_append_le_iff)

lemma order_line_range_iff:
  "key_bytes (KOrderLine w d n 0) \<le> key_bytes t \<and> key_bytes t < key_bytes (KOrderLine w d n 0xFFFFFFFF) \<longleftrightarrow>
   (\<exists>l. t = KOrderLine w d n l \<and> l < 0xFFFFFFFF)"
  by (cases t)
    (auto simp: subspace_bytes lex_append_iff lex_append_le_iff)

section \<open>Name-index keys\<close>

definition c_bytes :: "byte list \<Rightarrow> byte list" where
  "c_bytes s = takeWhile (\<lambda>b. b \<noteq> 0) s"

definition name_key_bytes :: "u32 \<Rightarrow> u32 \<Rightarrow> byte list \<Rightarrow> byte list \<Rightarrow> u32 \<Rightarrow> byte list" where
  "name_key_bytes w d l f c = SS_CUST_NAME @ be32 w @ be32 d @ l @ [0] @ f @ [0] @ be32 c"

lemma c_strlen_eq: "0 \<in> set s \<Longrightarrow> c_strlen s = Inr (length (c_bytes s))"
  by (simp add: c_strlen_def c_bytes_def)

lemma take_c_bytes: "take (length (c_bytes s)) s = c_bytes s"
  by (simp add: c_bytes_def flip: takeWhile_eq_take)

lemma kv_customer_name_key_eq:
  assumes "0 \<in> set c_last" and "0 \<in> set c_first"
  shows "kv_customer_name_key buf w d c_last c_first c =
    (if 22 + length (c_bytes c_last) + length (c_bytes c_first) \<le> length buf
     then Inr (built buf (name_key_bytes w d (c_bytes c_last) (c_bytes c_first) c))
     else Inl OutOfBounds)"
proof -
  define l f where "l = c_bytes c_last" and "f = c_bytes c_first"
  have t: "take (length l) c_last = l" "take (length f) c_first = f"
    by (simp_all only: l_def f_def take_c_bytes)
  show ?thesis
    using assms
    by (auto simp: kv_customer_name_key_def append_prefix_def kv_encode_u32_be_eq write_bytes_def
        Let_def c_strlen_eq t built_def name_key_bytes_def l_def [symmetric] f_def [symmetric] drop_Cons' add_ac)
qed

lemma append_zero_inject:
  fixes x y a b :: "byte list"
  assumes "0 \<notin> set x" and "0 \<notin> set y" and "x @ 0 # a = y @ 0 # b"
  shows "x = y \<and> a = b"
  using assms by (induction x arbitrary: y) (case_tac y, auto)+

lemma name_key_bytes_inj:
  assumes "0 \<notin> set l" "0 \<notin> set f" "0 \<notin> set l'" "0 \<notin> set f'"
    and "name_key_bytes w d l f c = name_key_bytes w' d' l' f' c'"
  shows "w = w' \<and> d = d' \<and> l = l' \<and> f = f' \<and> c = c'"
proof -
  have wd: "w = w'" "d = d'" and rest: "l @ 0 # f @ 0 # be32 c = l' @ 0 # f' @ 0 # be32 c'"
    using assms(5) by (auto simp: name_key_bytes_def)
  from append_zero_inject [OF assms(1,3) rest]
  have l: "l = l'" and rest: "f @ 0 # be32 c = f' @ 0 # be32 c'" by auto
  from append_zero_inject [OF assms(2,4) rest] show ?thesis using wd l by auto
qed

lemma c_bytes_no_zero: "0 \<notin> set (c_bytes s)"
  by (auto simp: c_bytes_def dest: set_takeWhileD)

section \<open>Properties\<close>






text \<open>
  C30. Integers survive their encodings: decoding the four bytes that \<open>kv_encode_u32_be\<close> wrote
  gives the value back, and so does the pair of the next-order codecs for every non-negative
  order number; a counter value shorter than eight bytes reads as zero.
\<close>

theorem kv_codecs_round_trip:
  assumes "4 \<le> length buf" and "8 \<le> length nbuf" and "0 \<le> sint n" and "len < 8"
  shows "bindR (kv_encode_u32_be buf 0 v) kv_decode_u32_be = Inr v \<and>
    bindR (kv_encode_next_o_id nbuf n) (\<lambda>b. kv_decode_next_o_id b 8) = Inr n \<and>
    kv_decode_next_o_id nbuf len = Inr 0"
  using assms kv_decode_next_o_id_encoded [OF assms(3)]
  by (simp add: kv_encode_u32_be_eq write_bytes_def kv_decode_u32_be_be32 kv_encode_next_o_id_eq)
    (simp add: kv_decode_next_o_id_def)

theorem kv_codecs_round_trip_witness:
  "bindR (kv_encode_u32_be (replicate 4 0) 0 0xDEADBEEF) kv_decode_u32_be = Inr 0xDEADBEEF \<and>
   bindR (kv_encode_next_o_id (replicate 8 0) 3001) (\<lambda>b. kv_decode_next_o_id b 8) = Inr 3001 \<and>
   kv_decode_next_o_id (replicate 8 0) 4 = Inr 0"
  by (rule kv_codecs_round_trip) simp_all

text \<open>
  The name-index builder succeeds exactly when both names are terminated strings and
  the whole key fits the caller's buffer, and otherwise stops at the first store outside it;
  where it succeeds, customers with different names or numbers get different keys.
\<close>

lemma kv_customer_name_key_correct:
  assumes "0 \<in> set c_last" and "0 \<in> set c_first" and "0 \<in> set c_last'" and "0 \<in> set c_first'"
  shows "(22 + length (c_bytes c_last) + length (c_bytes c_first) \<le> length buf \<longleftrightarrow>
      kv_customer_name_key buf w d c_last c_first c \<noteq> Inl OutOfBounds) \<and>
    (kv_customer_name_key buf w d c_last c_first c = Inr (b, n) \<and>
     kv_customer_name_key buf w' d' c_last' c_first' c' = Inr (b', n') \<and> take n b = take n' b' \<longrightarrow>
     w = w' \<and> d = d' \<and> c_bytes c_last = c_bytes c_last' \<and> c_bytes c_first = c_bytes c_first' \<and> c = c')"
  unfolding kv_customer_name_key_eq [OF assms(1,2)] kv_customer_name_key_eq [OF assms(3,4)] built_def
  using name_key_bytes_inj [OF c_bytes_no_zero c_bytes_no_zero c_bytes_no_zero c_bytes_no_zero]
  by (auto split: if_splits)

text \<open>From here on a key is an abstract value: clients use the lemmas above.\<close>

declare key_bytes.simps [simp del]

end
