(* ===== verification/Tpcc_Random.thy ===== *)
theory Tpcc_Random
  imports Tpcc_Kv "HOL-Library.Sublist"
begin

text \<open>
  The random parameters of the transactions: \<open>get_random_number\<close> of \<open>src/utility.c\<close>, \<open>nurand\<close> of
  \<open>src/handlers/tpcc_procedures.c\<close>, the two wrappers of \<open>src/handlers/tpcc_new_order.c\<close> and the
  last-name generator of \<open>src/handlers/tpcc_payment.c\<close> and \<open>src/tpcc_loader.c\<close>. The C library's
  \<open>rand_r\<close> is a parameter: a function from the seed to the value it returns and the new seed.
\<close>

type_synonym rng = "u32 \<Rightarrow> u32 \<times> u32"

section \<open>Constants\<close>

definition NURAND_C_LAST_A :: u32 where "NURAND_C_LAST_A = 255"
definition NURAND_C_ID_A :: u32 where "NURAND_C_ID_A = 1023"
definition NURAND_OL_I_ID_A :: u32 where "NURAND_OL_I_ID_A = 8191"
definition DISTRICTS_PER_WAREHOUSE :: u32 where "DISTRICTS_PER_WAREHOUSE = 10"
definition CUSTOMERS_PER_DISTRICT :: u32 where "CUSTOMERS_PER_DISTRICT = 3000"
definition ITEM_COUNT :: u32 where "ITEM_COUNT = 100000"

lemmas tpcc_constants = NURAND_C_LAST_A_def NURAND_C_ID_A_def NURAND_OL_I_ID_A_def
  DISTRICTS_PER_WAREHOUSE_def CUSTOMERS_PER_DISTRICT_def ITEM_COUNT_def

section \<open>Uniform and non-uniform numbers\<close>

text \<open>Remainder of unsigned numbers; a zero divisor is a fault.\<close>

definition umod :: "u32 \<Rightarrow> u32 \<Rightarrow> u32 result" where
  "umod a b = guardR (b \<noteq> 0) DivByZero (Inr (a mod b))"

definition get_random_number :: "rng \<Rightarrow> u32 \<Rightarrow> u32 \<Rightarrow> (u32 \<times> u32) result" where
  "get_random_number rand_r max_n seed =
     (let (r, seed) = rand_r seed
      in bindR (umod r max_n) (\<lambda>m. Inr (m + 1, seed)))"

definition nurand :: "rng \<Rightarrow> u32 \<Rightarrow> u32 \<Rightarrow> u32 \<Rightarrow> u32 \<Rightarrow> u32 \<Rightarrow> (u32 \<times> u32) result" where
  "nurand rand_r A x y seed C =
     (let (r, seed) = rand_r seed
      in bindR (umod r (A + 1)) (\<lambda>r1.
         let (r, seed) = rand_r seed
         in bindR (umod r (y - x + 1)) (\<lambda>m.
            let r2 = x + m
            in bindR (umod ((r1 OR r2) + C) (y - x + 1)) (\<lambda>v. Inr (v + x, seed)))))"

definition nurand_item :: "rng \<Rightarrow> u32 \<Rightarrow> (u32 \<times> u32) result" where
  "nurand_item rand_r seed =
     (let (r, seed) = rand_r seed
      in bindR (umod r (NURAND_OL_I_ID_A + 1)) (\<lambda>C.
         nurand rand_r NURAND_OL_I_ID_A 1 ITEM_COUNT seed C))"

definition nurand_customer :: "rng \<Rightarrow> u32 \<Rightarrow> (u32 \<times> u32) result" where
  "nurand_customer rand_r seed =
     (let (r, seed) = rand_r seed
      in bindR (umod r (NURAND_C_ID_A + 1)) (\<lambda>C.
         nurand rand_r NURAND_C_ID_A 1 CUSTOMERS_PER_DISTRICT seed C))"

section \<open>Last names\<close>

definition syllables :: "byte list list" where
  "syllables = [c_str ''BAR'', c_str ''OUGHT'', c_str ''ABLE'', c_str ''PRI'', c_str ''PRES'',
                c_str ''ESE'', c_str ''ANTI'', c_str ''CALLY'', c_str ''ATION'', c_str ''EING'']"

definition strcat :: "byte list \<Rightarrow> byte list \<Rightarrow> byte list result" where
  "strcat buf s = bindR (c_strlen buf) (\<lambda>n. write_bytes buf n (s @ [0]))"

text \<open>The three passes of the loop, hundreds first.\<close>

definition gen_c_last :: "u32 \<Rightarrow> byte list \<Rightarrow> byte list result" where
  "gen_c_last n buf =
     bindR (strcat buf (syllables ! unat ((n div 100) mod 10))) (\<lambda>buf.
     bindR (strcat buf (syllables ! unat ((n div 10) mod 10))) (\<lambda>buf.
     strcat buf (syllables ! unat ((n div 1) mod 10))))"

text \<open>The loader's copy clears the first byte of the buffer itself.\<close>

definition gen_c_last_loader :: "u32 \<Rightarrow> byte list \<Rightarrow> byte list result" where
  "gen_c_last_loader n buf = bindR (write_bytes buf 0 [0]) (gen_c_last n)"

section \<open>Lemmas\<close>

lemma umod_ok: "b \<noteq> 0 \<Longrightarrow> umod a b = Inr (a mod b)"
  by (simp add: umod_def)

lemma word_mod_less: "b \<noteq> 0 \<Longrightarrow> a mod b < (b :: 'a::len word)"
  by (simp add: word_mod_less_divisor word_neq_0_conv)

lemma get_random_number_eq:
  "max_n \<noteq> 0 \<Longrightarrow> get_random_number rand_r max_n seed =
     Inr (fst (rand_r seed) mod max_n + 1, snd (rand_r seed))"
  by (simp add: get_random_number_def umod_def split: prod.splits)

lemma get_random_number_zero: "get_random_number rand_r 0 seed = Inl DivByZero"
  by (simp add: get_random_number_def umod_def split: prod.splits)

lemma mod_plus_one_bounds:
  assumes "m \<noteq> (0 :: u32)"
  shows "1 \<le> a mod m + 1 \<and> a mod m + 1 \<le> m"
proof -
  have "unat (a mod m) < unat m"
    using word_mod_less [OF assms, of a] by (simp add: word_less_nat_alt)
  then have "unat (a mod m + 1) = unat (a mod m) + 1"
    using unsigned_less [of m, where ?'a = nat] by (subst unat_plus_if') auto
  then show ?thesis
    using \<open>unat (a mod m) < unat m\<close> by (simp add: word_le_nat_alt)
qed

lemma unat_one_plus: "unat (k :: u32) < 2 ^ 31 \<Longrightarrow> unat (1 + k) = 1 + unat k"
  by (simp add: unat_plus_if')

lemma one_plus_bounds:
  assumes "m \<noteq> 0" and "m < 2 ^ 31"
  shows "2 \<le> 1 + (r mod m + 1 :: u32) \<and> 1 + (r mod m + 1) \<le> 1 + m"
proof -
  define k where "k = r mod m + 1"
  have b: "1 \<le> unat k" "unat k \<le> unat m"
    using mod_plus_one_bounds [OF assms(1), of r] by (simp_all add: word_le_nat_alt k_def)
  have "unat m < 2 ^ 31" using assms(2) by (simp add: word_less_nat_alt)
  then have "unat (1 + k) = 1 + unat k" "unat (1 + m) = 1 + unat m"
    using b by (simp_all add: unat_one_plus)
  then have "2 \<le> 1 + k \<and> 1 + k \<le> 1 + m" using b by (simp add: word_le_nat_alt)
  then show ?thesis by (simp only: k_def)
qed

lemma offset_bounds:
  fixes x y v :: u32
  assumes "x \<le> y" and "y - x + 1 \<noteq> 0"
  shows "x \<le> v mod (y - x + 1) + x \<and> v mod (y - x + 1) + x \<le> y"
proof -
  have d: "unat (y - x) = unat y - unat x"
    using assms(1) by (simp add: unat_sub word_le_nat_alt)
  have "unat (y - x + 1) = unat (y - x) + 1"
    using assms(2) by (metis add.commute Suc_eq_plus1 unatSuc)
  then have "unat (v mod (y - x + 1)) \<le> unat y - unat x"
    using word_mod_less [OF assms(2), of v] d by (simp add: word_less_nat_alt)
  then have le: "unat (v mod (y - x + 1)) + unat x \<le> unat y"
    using assms(1) by (simp add: word_le_nat_alt)
  then have "unat (v mod (y - x + 1) + x) = unat (v mod (y - x + 1)) + unat x"
    using unsigned_less [of y, where ?'a = nat] by (subst unat_plus_if') auto
  with le show ?thesis by (simp add: word_le_nat_alt)
qed

lemma nurand_bounds:
  assumes "x \<le> y" and "y - x + 1 \<noteq> 0" and "A + 1 \<noteq> 0"
  shows "\<exists>v seed'. nurand rand_r A x y seed C = Inr (v, seed') \<and> x \<le> v \<and> v \<le> y"
  using assms offset_bounds [OF assms(1,2)]
  by (auto simp: nurand_def umod_def Let_def split: prod.splits)

lemma nurand_item_bounds:
  "\<exists>v seed'. nurand_item rand_r seed = Inr (v, seed') \<and> 1 \<le> v \<and> v \<le> ITEM_COUNT"
proof -
  obtain r s where r: "rand_r seed = (r, s)" by force
  show ?thesis
    using nurand_bounds [of 1 ITEM_COUNT NURAND_OL_I_ID_A rand_r s "r mod (NURAND_OL_I_ID_A + 1)"]
    by (simp add: nurand_item_def r umod_def tpcc_constants)
qed

lemma nurand_customer_bounds:
  "\<exists>v seed'. nurand_customer rand_r seed = Inr (v, seed') \<and> 1 \<le> v \<and> v \<le> CUSTOMERS_PER_DISTRICT"
proof -
  obtain r s where r: "rand_r seed = (r, s)" by force
  show ?thesis
    using nurand_bounds [of 1 CUSTOMERS_PER_DISTRICT NURAND_C_ID_A rand_r s "r mod (NURAND_C_ID_A + 1)"]
    by (simp add: nurand_customer_def r umod_def tpcc_constants)
qed

section \<open>The last-name code\<close>

definition c_last_of :: "u32 \<Rightarrow> byte list" where
  "c_last_of n = syllables ! unat ((n div 100) mod 10) @ syllables ! unat ((n div 10) mod 10) @
     syllables ! unat (n mod 10)"

lemma syllables_ok: "list_all (\<lambda>s. length s \<le> 5 \<and> 0 \<notin> set s) syllables"
  by (simp add: syllables_def c_str_def)

lemma length_syllables: "length syllables = 10"
  by (simp add: syllables_def)

lemma syllable_ok:
  assumes "i < 10"
  shows "length (syllables ! i) \<le> 5" and "0 \<notin> set (syllables ! i)"
  using syllables_ok assms by (auto simp: list_all_length length_syllables)

lemma digit_less: "unat (w mod (10 :: u32)) < 10"
  by (simp add: unat_mod)

text \<open>No syllable begins another one.\<close>

lemma syllables_prefix_free:
  "list_all (\<lambda>i. list_all (\<lambda>j. i = j \<or> \<not> prefix (syllables ! i) (syllables ! j)) [0..<10]) [0..<10]"
  by (simp add: syllables_def c_str_def upt_rec)

lemma syllables_not_prefix: "i < 10 \<Longrightarrow> j < 10 \<Longrightarrow> i \<noteq> j \<Longrightarrow> \<not> prefix (syllables ! i) (syllables ! j)"
  using syllables_prefix_free unfolding list_all_iff set_upt by (meson atLeastLessThan_iff le0)

lemma syllable_append_inject:
  assumes "i < 10" and "j < 10" and "syllables ! i @ x = syllables ! j @ y"
  shows "i = j \<and> x = y"
proof -
  have "prefix (syllables ! i) (syllables ! j) \<or> prefix (syllables ! j) (syllables ! i)"
    using assms(3) by (metis prefixI prefix_same_cases)
  then have "i = j"
    using syllables_not_prefix assms(1,2) by blast
  then show ?thesis using assms(3) by simp
qed

lemma c_bytes_terminated: "0 \<notin> set s \<Longrightarrow> c_bytes (s @ 0 # rest) = s"
  by (induction s) (auto simp: c_bytes_def)

lemma strcat_at:
  assumes "0 \<notin> set s" and "length t \<le> length rest"
  shows "strcat (s @ 0 # rest) t = Inr ((s @ t) @ 0 # drop (length t) rest)"
proof -
  have "strcat (s @ 0 # rest) t = write_bytes (s @ 0 # rest) (length s) (t @ [0])"
    using assms(1) by (simp add: strcat_def c_strlen_eq c_bytes_terminated)
  then show ?thesis
    using assms(2) by (simp add: write_bytes_def)
qed

lemma length_c_last_of: "length (c_last_of n) \<le> 15"
  using syllable_ok(1) [OF digit_less, of "n div 100"] syllable_ok(1) [OF digit_less, of "n div 10"]
    syllable_ok(1) [OF digit_less, of n]
  by (simp add: c_last_of_def)

lemma gen_c_last_eq:
  assumes "15 \<le> length rest"
  shows "gen_c_last n (0 # rest) = Inr (c_last_of n @ 0 # drop (length (c_last_of n)) rest)"
proof -
  define a b c where "a = syllables ! unat ((n div 100) mod 10)"
    and "b = syllables ! unat ((n div 10) mod 10)" and "c = syllables ! unat (n mod 10)"
  have l: "length a \<le> 5" "length b \<le> 5" "length c \<le> 5" and z: "0 \<notin> set a" "0 \<notin> set b" "0 \<notin> set c"
    unfolding a_def b_def c_def by (simp_all only: syllable_ok [OF digit_less] not_False_eq_True)
  have "strcat (0 # rest) a = Inr (a @ 0 # drop (length a) rest)"
    using strcat_at [of "[]" a rest] l assms by simp
  moreover have "strcat (a @ 0 # drop (length a) rest) b =
      Inr ((a @ b) @ 0 # drop (length b) (drop (length a) rest))"
    using l z assms by (intro strcat_at) auto
  moreover have "strcat ((a @ b) @ 0 # drop (length b) (drop (length a) rest)) c =
      Inr (((a @ b) @ c) @ 0 # drop (length c) (drop (length b) (drop (length a) rest)))"
    using l z assms by (intro strcat_at) auto
  ultimately show ?thesis
    by (simp add: gen_c_last_def c_last_of_def add_ac flip: a_def b_def c_def)
qed

lemma c_last_of_no_zero: "0 \<notin> set (c_last_of n)"
  unfolding c_last_of_def by (simp add: syllable_ok [OF digit_less])

lemma three_digits:
  fixes n :: nat
  assumes "n < 1000"
  shows "n = 100 * (n div 100 mod 10) + 10 * (n div 10 mod 10) + n mod 10"
proof -
  have "n = 10 * (n div 10) + n mod 10" and "n div 10 = 10 * (n div 10 div 10) + n div 10 mod 10"
    by simp_all
  moreover have "n div 10 div 10 = n div 100" and "n div 100 mod 10 = n div 100"
    using assms by (simp_all flip: div_mult2_eq)
  ultimately show ?thesis by linarith
qed

lemma c_last_of_inject:
  assumes "c_last_of m = c_last_of n" and "m < 1000" and "n < 1000"
  shows "m = n"
proof -
  have 1: "unat ((m div 100) mod 10) = unat ((n div 100) mod 10)"
    and r: "syllables ! unat ((m div 10) mod 10) @ syllables ! unat (m mod 10) =
      syllables ! unat ((n div 10) mod 10) @ syllables ! unat (n mod 10)"
    using assms(1) syllable_append_inject [OF digit_less digit_less] unfolding c_last_of_def by blast+
  have 2: "unat ((m div 10) mod 10) = unat ((n div 10) mod 10)"
    and r: "syllables ! unat (m mod 10) @ [] = syllables ! unat (n mod 10) @ []"
    using r syllable_append_inject [OF digit_less digit_less] by auto
  have 3: "unat (m mod 10) = unat (n mod 10)"
    using syllable_append_inject [OF digit_less digit_less r] by blast
  have "unat m < 1000" "unat n < 1000" using assms(2,3) by (simp_all add: word_less_nat_alt)
  then have "unat m = unat n"
    using three_digits [of "unat m"] three_digits [of "unat n"] 1 2 3
    by (simp add: unat_div unat_mod)
  then show ?thesis by (rule unsigned_word_eqI)
qed

section \<open>Properties\<close>

text \<open>
  C33. \<open>nurand\<close> never leaves its interval: for every seed and every constant, whatever
  \<open>rand_r\<close> returns, the result lies between \<open>x\<close> and \<open>y\<close>, and the wrappers give an item
  number between 1 and 100000 and a customer number between 1 and 3000. (The side conditions
  exclude the two divisors that wrap to zero.)
\<close>

theorem nurand_in_range:
  assumes "x \<le> y" and "y - x + 1 \<noteq> 0" and "A + 1 \<noteq> 0"
  shows "(\<exists>v seed'. nurand rand_r A x y seed C = Inr (v, seed') \<and> x \<le> v \<and> v \<le> y) \<and>
    (\<exists>v seed'. nurand_item rand_r seed = Inr (v, seed') \<and> 1 \<le> v \<and> v \<le> 100000) \<and>
    (\<exists>v seed'. nurand_customer rand_r seed = Inr (v, seed') \<and> 1 \<le> v \<and> v \<le> 3000)"
  using nurand_bounds [OF assms] nurand_item_bounds nurand_customer_bounds
  by (simp add: tpcc_constants)

text \<open>The sample \<open>rand_r\<close> of the POSIX standard, to run the definitions with.\<close>

definition posix_rand_r :: rng where
  "posix_rand_r seed = (let next = seed * 1103515245 + 12345 in ((next div 65536) mod 32768, next))"

theorem nurand_in_range_witness:
  "\<exists>v seed'. nurand posix_rand_r 255 0 999 42 7 = Inr (v, seed') \<and> 0 \<le> v \<and> v \<le> 999"
  using nurand_in_range [of 0 999 255 posix_rand_r 42 7] by simp

text \<open>
  C34. \<open>get_random_number\<close> never returns zero: with a positive bound it returns a number from
  1 to the bound, and with bound zero it divides by zero. Its callers and its test take it
  to return a number from 0 to the bound.
\<close>

theorem get_random_number_range:
  "get_random_number rand_r 0 seed = Inl DivByZero \<and>
   (max_n = 0 \<or> (\<exists>v. get_random_number rand_r max_n seed = Inr (v, snd (rand_r seed)) \<and>
      1 \<le> v \<and> v \<le> max_n))"
  using mod_plus_one_bounds [of max_n "fst (rand_r seed)"]
  by (auto simp: get_random_number_zero get_random_number_eq)

text \<open>
  The last-name generator always fits its 16-byte field: where the field starts with a
  zero byte (the payment context is zeroed) it writes the three syllables of the last three
  decimal digits, at most fifteen characters, and leaves the field terminated; the loader's
  copy does the same on any field; and different numbers below a thousand give different
  names.
\<close>

lemma gen_c_last_correct:
  assumes "length buf = 16" and "m < 1000" and "n < 1000"
  shows "\<exists>bm bn. gen_c_last m (0 # tl buf) = Inr bm \<and> gen_c_last_loader n buf = Inr bn \<and>
    c_bytes bm = c_last_of m \<and> length bm = 16 \<and> length bn = 16 \<and> length (c_bytes bm) \<le> 15 \<and>
    (c_bytes bm = c_bytes bn \<longleftrightarrow> m = n)"
proof -
  have "write_bytes buf 0 [0] = Inr (0 # tl buf)"
    using assms(1) by (cases buf) (simp_all add: write_bytes_def)
  then show ?thesis
    using c_last_of_inject [OF _ assms(2,3)] length_c_last_of [of m] length_c_last_of [of n] assms(1)
    by (auto simp: gen_c_last_loader_def gen_c_last_eq c_bytes_terminated c_last_of_no_zero)
qed

end
