(* ===== verification/Tpcc_Rows.thy ===== *)
theory Tpcc_Rows
  imports Prelude
begin

text \<open>
  The value structures of \<open>src/tpcc_kv.h\<close>. The program stores a row by handing the store the
  memory image of a packed structure, and reads one by casting the stored bytes to the
  structure, so a row's bytes are its fields in order, without padding, its integers in the
  byte order of the host. The host's byte order is a parameter. A character array is a byte
  list of the declared length; \<open>s_dist\<close>, an array of ten arrays of 24, is its 240 bytes.
\<close>

section \<open>Integers in the host's byte order\<close>

datatype byte_order = Little_Endian | Big_Endian

definition int_bytes :: "byte_order \<Rightarrow> nat \<Rightarrow> 'a::len word \<Rightarrow> byte list" where
  "int_bytes bo n w = (case bo of Big_Endian \<Rightarrow> be_bytes n w | Little_Endian \<Rightarrow> rev (be_bytes n w))"

definition bytes_int :: "byte_order \<Rightarrow> byte list \<Rightarrow> 'a::len word" where
  "bytes_int bo bs = be_word (case bo of Big_Endian \<Rightarrow> bs | Little_Endian \<Rightarrow> rev bs)"

lemma length_int_bytes [simp]: "length (int_bytes bo n w) = n"
  by (simp add: int_bytes_def split: byte_order.splits)

lemma bytes_int_int_bytes:
  "8 * n = LENGTH('a::len) \<Longrightarrow> bytes_int bo (int_bytes bo n (w :: 'a word)) = w"
  by (simp add: bytes_int_def int_bytes_def be_word_be_bytes split: byte_order.splits)

lemma bytes_int_simps [simp]:
  "bytes_int bo (int_bytes bo 2 (x :: 16 word)) = x"
  "bytes_int bo (int_bytes bo 4 (y :: 32 word)) = y"
  "bytes_int bo (int_bytes bo 8 (z :: 64 word)) = z"
  by (simp_all add: bytes_int_int_bytes)

section \<open>The structures\<close>

record warehouse_val =
  w_name :: "byte list"
  w_street_1 :: "byte list"
  w_street_2 :: "byte list"
  w_city :: "byte list"
  w_state :: "byte list"
  w_zip :: "byte list"
  w_tax :: i32
  w_ytd :: i64

record district_val =
  d_name :: "byte list"
  d_street_1 :: "byte list"
  d_street_2 :: "byte list"
  d_city :: "byte list"
  d_state :: "byte list"
  d_zip :: "byte list"
  d_tax :: i32
  d_ytd :: i64
  d_next_o_id :: i32

record customer_val =
  c_first :: "byte list"
  c_middle :: "byte list"
  c_last :: "byte list"
  c_street_1 :: "byte list"
  c_street_2 :: "byte list"
  c_city :: "byte list"
  c_state :: "byte list"
  c_zip :: "byte list"
  c_phone :: "byte list"
  c_since :: i64
  c_credit :: "byte list"
  c_credit_lim :: i64
  c_discount :: i32
  c_balance :: i64
  c_ytd_payment :: i64
  c_payment_cnt :: i16
  c_delivery_cnt :: i16
  c_data :: "byte list"

record history_val =
  h_date :: i64
  h_amount :: i32
  h_data :: "byte list"

record item_val =
  i_name :: "byte list"
  i_price :: i32
  i_data :: "byte list"
  i_im_id :: i32

record stock_val =
  s_quantity :: i32
  s_dist :: "byte list"
  s_ytd :: i32
  s_order_cnt :: i32
  s_remote_cnt :: i32
  s_data :: "byte list"

record oorder_val =
  o_c_id :: u32
  o_carrier_id :: i32
  o_ol_cnt :: i16
  o_all_local :: i16
  o_entry_d :: i64

record order_line_val =
  ol_i_id :: u32
  ol_supply_w_id :: u32
  ol_delivery_d :: i64
  ol_quantity :: i16
  ol_amount :: i32
  ol_dist_info :: "byte list"

section \<open>Sizes and memory images\<close>

definition sizeof_warehouse_val :: nat where "sizeof_warehouse_val = 93"
definition sizeof_district_val :: nat where "sizeof_district_val = 97"
definition sizeof_customer_val :: nat where "sizeof_customer_val = 663"
definition sizeof_history_val :: nat where "sizeof_history_val = 36"
definition sizeof_item_val :: nat where "sizeof_item_val = 82"
definition sizeof_stock_val :: nat where "sizeof_stock_val = 306"
definition sizeof_oorder_val :: nat where "sizeof_oorder_val = 20"
definition sizeof_order_line_val :: nat where "sizeof_order_line_val = 46"

definition warehouse_bytes :: "byte_order \<Rightarrow> warehouse_val \<Rightarrow> byte list" where
  "warehouse_bytes bo v =
     w_name v @
     w_street_1 v @
     w_street_2 v @
     w_city v @
     w_state v @
     w_zip v @
     int_bytes bo 4 (w_tax v) @
     int_bytes bo 8 (w_ytd v)"

definition district_bytes :: "byte_order \<Rightarrow> district_val \<Rightarrow> byte list" where
  "district_bytes bo v =
     d_name v @
     d_street_1 v @
     d_street_2 v @
     d_city v @
     d_state v @
     d_zip v @
     int_bytes bo 4 (d_tax v) @
     int_bytes bo 8 (d_ytd v) @
     int_bytes bo 4 (d_next_o_id v)"

definition customer_bytes :: "byte_order \<Rightarrow> customer_val \<Rightarrow> byte list" where
  "customer_bytes bo v =
     c_first v @
     c_middle v @
     c_last v @
     c_street_1 v @
     c_street_2 v @
     c_city v @
     c_state v @
     c_zip v @
     c_phone v @
     int_bytes bo 8 (c_since v) @
     c_credit v @
     int_bytes bo 8 (c_credit_lim v) @
     int_bytes bo 4 (c_discount v) @
     int_bytes bo 8 (c_balance v) @
     int_bytes bo 8 (c_ytd_payment v) @
     int_bytes bo 2 (c_payment_cnt v) @
     int_bytes bo 2 (c_delivery_cnt v) @
     c_data v"

definition history_bytes :: "byte_order \<Rightarrow> history_val \<Rightarrow> byte list" where
  "history_bytes bo v =
     int_bytes bo 8 (h_date v) @
     int_bytes bo 4 (h_amount v) @
     h_data v"

definition item_bytes :: "byte_order \<Rightarrow> item_val \<Rightarrow> byte list" where
  "item_bytes bo v =
     i_name v @
     int_bytes bo 4 (i_price v) @
     i_data v @
     int_bytes bo 4 (i_im_id v)"

definition stock_bytes :: "byte_order \<Rightarrow> stock_val \<Rightarrow> byte list" where
  "stock_bytes bo v =
     int_bytes bo 4 (s_quantity v) @
     s_dist v @
     int_bytes bo 4 (s_ytd v) @
     int_bytes bo 4 (s_order_cnt v) @
     int_bytes bo 4 (s_remote_cnt v) @
     s_data v"

definition oorder_bytes :: "byte_order \<Rightarrow> oorder_val \<Rightarrow> byte list" where
  "oorder_bytes bo v =
     int_bytes bo 4 (o_c_id v) @
     int_bytes bo 4 (o_carrier_id v) @
     int_bytes bo 2 (o_ol_cnt v) @
     int_bytes bo 2 (o_all_local v) @
     int_bytes bo 8 (o_entry_d v)"

definition order_line_bytes :: "byte_order \<Rightarrow> order_line_val \<Rightarrow> byte list" where
  "order_line_bytes bo v =
     int_bytes bo 4 (ol_i_id v) @
     int_bytes bo 4 (ol_supply_w_id v) @
     int_bytes bo 8 (ol_delivery_d v) @
     int_bytes bo 2 (ol_quantity v) @
     int_bytes bo 4 (ol_amount v) @
     ol_dist_info v"

text \<open>A cast of a byte buffer to a row reads each field at its packed offset.\<close>

definition cast_warehouse :: "byte_order \<Rightarrow> byte list \<Rightarrow> warehouse_val" where
  "cast_warehouse bo bs = \<lparr>
     w_name = field 0 10 bs,
     w_street_1 = field 10 20 bs,
     w_street_2 = field 30 20 bs,
     w_city = field 50 20 bs,
     w_state = field 70 2 bs,
     w_zip = field 72 9 bs,
     w_tax = bytes_int bo (field 81 4 bs),
     w_ytd = bytes_int bo (field 85 8 bs)\<rparr>"

definition cast_district :: "byte_order \<Rightarrow> byte list \<Rightarrow> district_val" where
  "cast_district bo bs = \<lparr>
     d_name = field 0 10 bs,
     d_street_1 = field 10 20 bs,
     d_street_2 = field 30 20 bs,
     d_city = field 50 20 bs,
     d_state = field 70 2 bs,
     d_zip = field 72 9 bs,
     d_tax = bytes_int bo (field 81 4 bs),
     d_ytd = bytes_int bo (field 85 8 bs),
     d_next_o_id = bytes_int bo (field 93 4 bs)\<rparr>"

definition cast_customer :: "byte_order \<Rightarrow> byte list \<Rightarrow> customer_val" where
  "cast_customer bo bs = \<lparr>
     c_first = field 0 16 bs,
     c_middle = field 16 2 bs,
     c_last = field 18 16 bs,
     c_street_1 = field 34 20 bs,
     c_street_2 = field 54 20 bs,
     c_city = field 74 20 bs,
     c_state = field 94 2 bs,
     c_zip = field 96 9 bs,
     c_phone = field 105 16 bs,
     c_since = bytes_int bo (field 121 8 bs),
     c_credit = field 129 2 bs,
     c_credit_lim = bytes_int bo (field 131 8 bs),
     c_discount = bytes_int bo (field 139 4 bs),
     c_balance = bytes_int bo (field 143 8 bs),
     c_ytd_payment = bytes_int bo (field 151 8 bs),
     c_payment_cnt = bytes_int bo (field 159 2 bs),
     c_delivery_cnt = bytes_int bo (field 161 2 bs),
     c_data = field 163 500 bs\<rparr>"

definition cast_history :: "byte_order \<Rightarrow> byte list \<Rightarrow> history_val" where
  "cast_history bo bs = \<lparr>
     h_date = bytes_int bo (field 0 8 bs),
     h_amount = bytes_int bo (field 8 4 bs),
     h_data = field 12 24 bs\<rparr>"

definition cast_item :: "byte_order \<Rightarrow> byte list \<Rightarrow> item_val" where
  "cast_item bo bs = \<lparr>
     i_name = field 0 24 bs,
     i_price = bytes_int bo (field 24 4 bs),
     i_data = field 28 50 bs,
     i_im_id = bytes_int bo (field 78 4 bs)\<rparr>"

definition cast_stock :: "byte_order \<Rightarrow> byte list \<Rightarrow> stock_val" where
  "cast_stock bo bs = \<lparr>
     s_quantity = bytes_int bo (field 0 4 bs),
     s_dist = field 4 240 bs,
     s_ytd = bytes_int bo (field 244 4 bs),
     s_order_cnt = bytes_int bo (field 248 4 bs),
     s_remote_cnt = bytes_int bo (field 252 4 bs),
     s_data = field 256 50 bs\<rparr>"

definition cast_oorder :: "byte_order \<Rightarrow> byte list \<Rightarrow> oorder_val" where
  "cast_oorder bo bs = \<lparr>
     o_c_id = bytes_int bo (field 0 4 bs),
     o_carrier_id = bytes_int bo (field 4 4 bs),
     o_ol_cnt = bytes_int bo (field 8 2 bs),
     o_all_local = bytes_int bo (field 10 2 bs),
     o_entry_d = bytes_int bo (field 12 8 bs)\<rparr>"

definition cast_order_line :: "byte_order \<Rightarrow> byte list \<Rightarrow> order_line_val" where
  "cast_order_line bo bs = \<lparr>
     ol_i_id = bytes_int bo (field 0 4 bs),
     ol_supply_w_id = bytes_int bo (field 4 4 bs),
     ol_delivery_d = bytes_int bo (field 8 8 bs),
     ol_quantity = bytes_int bo (field 16 2 bs),
     ol_amount = bytes_int bo (field 18 4 bs),
     ol_dist_info = field 22 24 bs\<rparr>"

text \<open>\<open>memset(&v, 0, sizeof(v))\<close>.\<close>

definition zero_warehouse :: warehouse_val where
  "zero_warehouse = \<lparr>w_name = replicate 10 0, w_street_1 = replicate 20 0, w_street_2 = replicate 20 0, w_city = replicate 20 0, w_state = replicate 2 0, w_zip = replicate 9 0, w_tax = 0, w_ytd = 0\<rparr>"

definition zero_district :: district_val where
  "zero_district = \<lparr>d_name = replicate 10 0, d_street_1 = replicate 20 0, d_street_2 = replicate 20 0, d_city = replicate 20 0, d_state = replicate 2 0, d_zip = replicate 9 0, d_tax = 0, d_ytd = 0, d_next_o_id = 0\<rparr>"

definition zero_customer :: customer_val where
  "zero_customer = \<lparr>c_first = replicate 16 0, c_middle = replicate 2 0, c_last = replicate 16 0, c_street_1 = replicate 20 0, c_street_2 = replicate 20 0, c_city = replicate 20 0, c_state = replicate 2 0, c_zip = replicate 9 0, c_phone = replicate 16 0, c_since = 0, c_credit = replicate 2 0, c_credit_lim = 0, c_discount = 0, c_balance = 0, c_ytd_payment = 0, c_payment_cnt = 0, c_delivery_cnt = 0, c_data = replicate 500 0\<rparr>"

definition zero_history :: history_val where
  "zero_history = \<lparr>h_date = 0, h_amount = 0, h_data = replicate 24 0\<rparr>"

definition zero_item :: item_val where
  "zero_item = \<lparr>i_name = replicate 24 0, i_price = 0, i_data = replicate 50 0, i_im_id = 0\<rparr>"

definition zero_stock :: stock_val where
  "zero_stock = \<lparr>s_quantity = 0, s_dist = replicate 240 0, s_ytd = 0, s_order_cnt = 0, s_remote_cnt = 0, s_data = replicate 50 0\<rparr>"

definition zero_oorder :: oorder_val where
  "zero_oorder = \<lparr>o_c_id = 0, o_carrier_id = 0, o_ol_cnt = 0, o_all_local = 0, o_entry_d = 0\<rparr>"

definition zero_order_line :: order_line_val where
  "zero_order_line = \<lparr>ol_i_id = 0, ol_supply_w_id = 0, ol_delivery_d = 0, ol_quantity = 0, ol_amount = 0, ol_dist_info = replicate 24 0\<rparr>"

text \<open>The character arrays have their declared lengths.\<close>

definition warehouse_wf :: "warehouse_val \<Rightarrow> bool" where
  "warehouse_wf v \<longleftrightarrow> length (w_name v) = 10 \<and> length (w_street_1 v) = 20 \<and> length (w_street_2 v) = 20 \<and> length (w_city v) = 20 \<and> length (w_state v) = 2 \<and> length (w_zip v) = 9"

definition district_wf :: "district_val \<Rightarrow> bool" where
  "district_wf v \<longleftrightarrow> length (d_name v) = 10 \<and> length (d_street_1 v) = 20 \<and> length (d_street_2 v) = 20 \<and> length (d_city v) = 20 \<and> length (d_state v) = 2 \<and> length (d_zip v) = 9"

definition customer_wf :: "customer_val \<Rightarrow> bool" where
  "customer_wf v \<longleftrightarrow> length (c_first v) = 16 \<and> length (c_middle v) = 2 \<and> length (c_last v) = 16 \<and> length (c_street_1 v) = 20 \<and> length (c_street_2 v) = 20 \<and> length (c_city v) = 20 \<and> length (c_state v) = 2 \<and> length (c_zip v) = 9 \<and> length (c_phone v) = 16 \<and> length (c_credit v) = 2 \<and> length (c_data v) = 500"

definition history_wf :: "history_val \<Rightarrow> bool" where
  "history_wf v \<longleftrightarrow> length (h_data v) = 24"

definition item_wf :: "item_val \<Rightarrow> bool" where
  "item_wf v \<longleftrightarrow> length (i_name v) = 24 \<and> length (i_data v) = 50"

definition stock_wf :: "stock_val \<Rightarrow> bool" where
  "stock_wf v \<longleftrightarrow> length (s_dist v) = 240 \<and> length (s_data v) = 50"

definition oorder_wf :: "oorder_val \<Rightarrow> bool" where
  "oorder_wf v \<longleftrightarrow> True"

definition order_line_wf :: "order_line_val \<Rightarrow> bool" where
  "order_line_wf v \<longleftrightarrow> length (ol_dist_info v) = 24"

lemmas row_bytes_defs = warehouse_bytes_def district_bytes_def customer_bytes_def history_bytes_def item_bytes_def stock_bytes_def oorder_bytes_def order_line_bytes_def
lemmas row_cast_defs = cast_warehouse_def cast_district_def cast_customer_def cast_history_def cast_item_def cast_stock_def cast_oorder_def cast_order_line_def
lemmas row_wf_defs = warehouse_wf_def district_wf_def customer_wf_def history_wf_def item_wf_def stock_wf_def oorder_wf_def order_line_wf_def
lemmas row_sizes = sizeof_warehouse_val_def sizeof_district_val_def sizeof_customer_val_def sizeof_history_val_def sizeof_item_val_def sizeof_stock_val_def sizeof_oorder_val_def sizeof_order_line_val_def
lemmas row_zero_defs = zero_warehouse_def zero_district_def zero_customer_def zero_history_def zero_item_def zero_stock_def zero_oorder_def zero_order_line_def

lemma length_warehouse_bytes [simp]: "warehouse_wf v \<Longrightarrow> length (warehouse_bytes bo v) = sizeof_warehouse_val"
  by (simp add: warehouse_bytes_def warehouse_wf_def sizeof_warehouse_val_def)

lemma length_district_bytes [simp]: "district_wf v \<Longrightarrow> length (district_bytes bo v) = sizeof_district_val"
  by (simp add: district_bytes_def district_wf_def sizeof_district_val_def)

lemma length_customer_bytes [simp]: "customer_wf v \<Longrightarrow> length (customer_bytes bo v) = sizeof_customer_val"
  by (simp add: customer_bytes_def customer_wf_def sizeof_customer_val_def)

lemma length_history_bytes [simp]: "history_wf v \<Longrightarrow> length (history_bytes bo v) = sizeof_history_val"
  by (simp add: history_bytes_def history_wf_def sizeof_history_val_def)

lemma length_item_bytes [simp]: "item_wf v \<Longrightarrow> length (item_bytes bo v) = sizeof_item_val"
  by (simp add: item_bytes_def item_wf_def sizeof_item_val_def)

lemma length_stock_bytes [simp]: "stock_wf v \<Longrightarrow> length (stock_bytes bo v) = sizeof_stock_val"
  by (simp add: stock_bytes_def stock_wf_def sizeof_stock_val_def)

lemma length_oorder_bytes [simp]: "oorder_wf v \<Longrightarrow> length (oorder_bytes bo v) = sizeof_oorder_val"
  by (simp add: oorder_bytes_def oorder_wf_def sizeof_oorder_val_def)

lemma length_order_line_bytes [simp]: "order_line_wf v \<Longrightarrow> length (order_line_bytes bo v) = sizeof_order_line_val"
  by (simp add: order_line_bytes_def order_line_wf_def sizeof_order_line_val_def)

lemma cast_warehouse_bytes [simp]: "warehouse_wf v \<Longrightarrow> cast_warehouse bo (warehouse_bytes bo v @ rest) = v"
  by (simp add: cast_warehouse_def warehouse_bytes_def warehouse_wf_def field_skip field_here)

lemma cast_district_bytes [simp]: "district_wf v \<Longrightarrow> cast_district bo (district_bytes bo v @ rest) = v"
  by (simp add: cast_district_def district_bytes_def district_wf_def field_skip field_here)

lemma cast_customer_bytes [simp]: "customer_wf v \<Longrightarrow> cast_customer bo (customer_bytes bo v @ rest) = v"
  by (simp add: cast_customer_def customer_bytes_def customer_wf_def field_skip field_here)

lemma cast_history_bytes [simp]: "history_wf v \<Longrightarrow> cast_history bo (history_bytes bo v @ rest) = v"
  by (simp add: cast_history_def history_bytes_def history_wf_def field_skip field_here)

lemma cast_item_bytes [simp]: "item_wf v \<Longrightarrow> cast_item bo (item_bytes bo v @ rest) = v"
  by (simp add: cast_item_def item_bytes_def item_wf_def field_skip field_here)

lemma cast_stock_bytes [simp]: "stock_wf v \<Longrightarrow> cast_stock bo (stock_bytes bo v @ rest) = v"
  by (simp add: cast_stock_def stock_bytes_def stock_wf_def field_skip field_here)

lemma cast_oorder_bytes [simp]: "oorder_wf v \<Longrightarrow> cast_oorder bo (oorder_bytes bo v @ rest) = v"
  by (simp add: cast_oorder_def oorder_bytes_def oorder_wf_def field_skip field_here)

lemma cast_order_line_bytes [simp]: "order_line_wf v \<Longrightarrow> cast_order_line bo (order_line_bytes bo v @ rest) = v"
  by (simp add: cast_order_line_def order_line_bytes_def order_line_wf_def field_skip field_here)

lemma warehouse_wf_zero [simp]: "warehouse_wf zero_warehouse"
  by (simp add: warehouse_wf_def zero_warehouse_def)

lemma district_wf_zero [simp]: "district_wf zero_district"
  by (simp add: district_wf_def zero_district_def)

lemma customer_wf_zero [simp]: "customer_wf zero_customer"
  by (simp add: customer_wf_def zero_customer_def)

lemma history_wf_zero [simp]: "history_wf zero_history"
  by (simp add: history_wf_def zero_history_def)

lemma item_wf_zero [simp]: "item_wf zero_item"
  by (simp add: item_wf_def zero_item_def)

lemma stock_wf_zero [simp]: "stock_wf zero_stock"
  by (simp add: stock_wf_def zero_stock_def)

lemma oorder_wf_zero [simp]: "oorder_wf zero_oorder"
  by (simp add: oorder_wf_def zero_oorder_def)

lemma order_line_wf_zero [simp]: "order_line_wf zero_order_line"
  by (simp add: order_line_wf_def zero_order_line_def)

section \<open>Properties\<close>



text \<open>
  The integers of a stored row are in the host's byte order, not in network byte order:
  the next order number of a district is stored most significant byte first on a big-endian
  host only, and a row written on a little-endian host is read with its bytes reversed on a
  big-endian one.
\<close>

lemma rows_in_host_order:
  assumes "district_wf v"
  shows "field 93 4 (district_bytes Big_Endian v) = be_bytes 4 (d_next_o_id v) \<and>
    field 93 4 (district_bytes Little_Endian v) = rev (be_bytes 4 (d_next_o_id v)) \<and>
    d_next_o_id (cast_district Big_Endian (district_bytes Little_Endian v)) =
      be_word (rev (be_bytes 4 (d_next_o_id v)))"
  using assms
  by (simp add: district_bytes_def district_wf_def cast_district_def field_skip field_here field_last
      int_bytes_def bytes_int_def)

end
