(* ===== verification/Fdb_Database.thy ===== *)
theory Fdb_Database
  imports Tpcc_Random Tpcc_Rows
begin

text \<open>
  The adapter of \<open>src/fdb_database.h\<close> and \<open>src/fdb_database.c\<close>, and the state of one request as it
  travels through a chain of callbacks. The calls of the FoundationDB client library, of h2o
  and of yajl are recorded in a log; what they answer is the environment's choice, a function
  of the log so far, and what a future delivers is an argument of the callback. A request's
  context is \<open>None\<close> once freed, and the live transaction, the live futures and the live
  callback wrappers are counted, so that a use after free, a second free, a leak, a second
  response or a missing response shows up in the state. The locale \<open>callback_chain\<close> is the
  contract between the adapter and the transactions.
\<close>

section \<open>External calls and their replies\<close>

type_synonym bytes = "byte list"
type_synonym fdb_error = i32

text \<open>The calls made on a yajl generator, which fix the JSON text.\<close>

datatype json_event =
    Map_open
  | Map_close
  | Array_open
  | Array_close
  | Jstring bytes
  | Jinteger int

datatype body = Yajl "json_event list" | Raw bytes

text \<open>A key selector: the key, \<open>or_equal\<close> and \<open>offset\<close>.\<close>

record key_selector =
  ks_key :: bytes
  ks_or_equal :: bool
  ks_offset :: int

datatype call =
    Fdb_create_transaction
  | Fdb_get bytes
  | Fdb_set bytes bytes
  | Fdb_get_range key_selector key_selector
  | Fdb_commit
  | Fdb_on_error fdb_error
  | Fdb_transaction_destroy
  | Fdb_future_destroy
  | H2o_add_content_type string
  | H2o_send_inline body
  | H2o_send_error_generic i32 string string
  | H2o_send_error_503 string string

text \<open>
  What a ready future holds: the error of \<open>fdb_future_get_error\<close>, the error of the accessor
  called on it, and the value or the key-value array.
\<close>

record fdb_reply =
  r_error :: fdb_error
  r_get_error :: fdb_error
  r_present :: bool
  r_value :: bytes
  r_kvs :: "(bytes \<times> bytes) list"

text \<open>
  The environment: whether \<open>calloc\<close> (of the context, and of the arrays it points to) and \<open>malloc\<close>
  find memory, the clock, \<open>rand_r\<close>, the seed the thread's requests share as this request finds
  it, the host's byte order, the error of creating a transaction, whether an API call returns a
  future, and the error of registering a callback.
\<close>

record env =
  e_calloc :: "call list \<Rightarrow> bool"
  e_calloc_array :: "nat \<Rightarrow> call list \<Rightarrow> bool"
  e_malloc :: "call list \<Rightarrow> bool"
  e_time :: "call list \<Rightarrow> i64"
  e_rand_r :: rng
  e_seed :: "call list \<Rightarrow> u32"
  e_byte_order :: byte_order
  e_create :: "call list \<Rightarrow> fdb_error"
  e_future :: "call list \<Rightarrow> bool"
  e_set_callback :: "call list \<Rightarrow> fdb_error"

record fdb_thread_state =
  db :: "nat option"
  ts_loop :: nat
  active_transactions :: size_t
  max_transactions :: size_t

record ('c, 'b) world =
  ctx :: "'c option"
  fdb_state :: "fdb_thread_state option"
  tr :: bool
  pending :: "'b list"
  futures :: nat
  wrappers :: nat
  log :: "call list"

definition emit :: "call \<Rightarrow> ('c, 'b) world \<Rightarrow> ('c, 'b) world" where
  "emit c w = w\<lparr>log := log w @ [c]\<rparr>"

section \<open>The adapter\<close>

definition fdb_create_transaction :: "env \<Rightarrow> ('c, 'b) world \<Rightarrow> (i32 \<times> ('c, 'b) world) result" where
  "fdb_create_transaction e w =
     (case fdb_state w of
        None \<Rightarrow> Inl NullDeref
      | Some st \<Rightarrow>
          guardR (db st \<noteq> None) AssertFailure
            (let w = emit Fdb_create_transaction w; err = e_create e (log w)
             in if err \<noteq> 0 then Inr (err, w)
                else Inr (0, w\<lparr>tr := True,
                               fdb_state := Some (st\<lparr>active_transactions := active_transactions st + 1\<rparr>)\<rparr>)))"

text \<open>The wrapper around a callback: run it, destroy the future, free the wrapper.\<close>

definition future_callback ::
  "('b \<Rightarrow> fdb_reply \<Rightarrow> ('c, 'b) world \<Rightarrow> ('c, 'b) world result) \<Rightarrow> 'b \<Rightarrow> fdb_reply \<Rightarrow>
   ('c, 'b) world \<Rightarrow> ('c, 'b) world result" where
  "future_callback run cb future w =
     bindR (run cb future w) (\<lambda>w.
       guardR (0 < futures w \<and> 0 < wrappers w) DoubleFree
         (Inr ((emit Fdb_future_destroy w)\<lparr>futures := futures w - 1, wrappers := wrappers w - 1\<rparr>)))"

text \<open>
  \<open>submit_future\<close> owns the future it is given: it destroys it when the wrapper cannot be
  allocated or registered. A registered callback is pending until its future is ready.
\<close>

definition submit_future :: "env \<Rightarrow> 'b \<Rightarrow> ('c, 'b) world \<Rightarrow> i32 \<times> ('c, 'b) world" where
  "submit_future e cb w =
     (if \<not> e_malloc e (log w) then (- 1, emit Fdb_future_destroy w)
      else let err = e_set_callback e (log w)
           in if err \<noteq> 0 then (err, emit Fdb_future_destroy w)
              else (0, w\<lparr>pending := pending w @ [cb], futures := futures w + 1, wrappers := wrappers w + 1\<rparr>))"

text \<open>The common shape of the four asynchronous calls.\<close>

definition async_call :: "env \<Rightarrow> call \<Rightarrow> i32 \<Rightarrow> 'b \<Rightarrow> ('c, 'b) world \<Rightarrow> (i32 \<times> ('c, 'b) world) result" where
  "async_call e c failed cb w =
     guardR (tr w) UseAfterFree
       (let w = emit c w
        in Inr (if \<not> e_future e (log w) then (failed, w) else submit_future e cb w))"

definition fdb_async_get :: "env \<Rightarrow> bytes \<Rightarrow> 'b \<Rightarrow> ('c, 'b) world \<Rightarrow> (i32 \<times> ('c, 'b) world) result" where
  "fdb_async_get e key cb w = async_call e (Fdb_get key) (- 1) cb w"

definition fdb_sync_set :: "bytes \<Rightarrow> bytes \<Rightarrow> ('c, 'b) world \<Rightarrow> ('c, 'b) world result" where
  "fdb_sync_set key val w = guardR (tr w) UseAfterFree (Inr (emit (Fdb_set key val) w))"

definition fdb_async_get_range ::
  "env \<Rightarrow> bytes \<Rightarrow> bytes \<Rightarrow> 'b \<Rightarrow> ('c, 'b) world \<Rightarrow> (i32 \<times> ('c, 'b) world) result" where
  "fdb_async_get_range e kb ke cb w =
     async_call e (Fdb_get_range \<lparr>ks_key = kb, ks_or_equal = False, ks_offset = 0\<rparr>
                                 \<lparr>ks_key = ke, ks_or_equal = False, ks_offset = 0\<rparr>) (- 1) cb w"

definition fdb_async_commit :: "env \<Rightarrow> 'b \<Rightarrow> ('c, 'b) world \<Rightarrow> (i32 \<times> ('c, 'b) world) result" where
  "fdb_async_commit e cb w = async_call e Fdb_commit (- 1) cb w"

definition fdb_handle_error :: "env \<Rightarrow> fdb_error \<Rightarrow> 'b \<Rightarrow> ('c, 'b) world \<Rightarrow> (i32 \<times> ('c, 'b) world) result" where
  "fdb_handle_error e err cb w = async_call e (Fdb_on_error err) err cb w"

text \<open>The callers drop the return code.\<close>

definition ignore_rc :: "(i32 \<times> ('c, 'b) world) result \<Rightarrow> ('c, 'b) world result" where
  "ignore_rc m = bindR m (\<lambda>(rc, w). Inr w)"

section \<open>Steps every transaction shares\<close>

text \<open>\<open>ctx->...\<close> in a callback: the context is dereferenced.\<close>

definition with_ctx :: "('c, 'b) world \<Rightarrow> ('c \<Rightarrow> 'a result) \<Rightarrow> 'a result" where
  "with_ctx w f = (case ctx w of None \<Rightarrow> Inl UseAfterFree | Some c \<Rightarrow> f c)"

text \<open>\<open>fdb_transaction_destroy(ctx->tr); free(ctx);\<close>\<close>

definition release :: "('c, 'b) world \<Rightarrow> ('c, 'b) world result" where
  "release w = guardR (tr w) DoubleFree
     (guardR (ctx w \<noteq> None) DoubleFree (Inr ((emit Fdb_transaction_destroy w)\<lparr>tr := False, ctx := None\<rparr>)))"

text \<open>
  \<open>fdb_future_get_value\<close> followed by the size check of the callers: the bytes when the call
  succeeds, the key is present and the value is at least as long as the structure.
\<close>

definition value_of_size :: "nat \<Rightarrow> fdb_reply \<Rightarrow> bytes option" where
  "value_of_size n r =
     (if r_get_error r \<noteq> 0 \<or> \<not> r_present r \<or> length (r_value r) < n then None else Some (r_value r))"

text \<open>\<open>tpcc_send_error\<close>, \<open>send_json_str\<close>, \<open>send_error\<close>, \<open>send_service_unavailable_error\<close>\<close>

definition tpcc_send_error :: "i32 \<Rightarrow> string \<Rightarrow> ('c, 'b) world \<Rightarrow> ('c, 'b) world" where
  "tpcc_send_error status_code error_msg = emit (H2o_send_error_503 ''Service Unavailable'' error_msg)"

definition send_json_str :: "bytes \<Rightarrow> ('c, 'b) world \<Rightarrow> ('c, 'b) world" where
  "send_json_str json = emit (H2o_send_inline (Raw json))"

definition send_error :: "i32 \<Rightarrow> string \<Rightarrow> ('c, 'b) world \<Rightarrow> ('c, 'b) world" where
  "send_error status_code error_msg = emit (H2o_send_error_generic status_code ''Error'' error_msg)"

definition send_service_unavailable_error :: "string \<Rightarrow> ('c, 'b) world \<Rightarrow> ('c, 'b) world" where
  "send_service_unavailable_error error_msg = emit (H2o_send_error_503 ''Service Unavailable'' error_msg)"

section \<open>Responses of the utility module\<close>

datatype content_type = PLAIN | JSON | HTML

definition set_default_response_param :: "content_type \<Rightarrow> ('c, 'b) world \<Rightarrow> ('c, 'b) world" where
  "set_default_response_param type = emit (H2o_add_content_type (case type of
       JSON \<Rightarrow> ''application/json''
     | PLAIN \<Rightarrow> ''text/plain''
     | HTML \<Rightarrow> ''text/html; charset=utf-8''))"

definition send_json_gen :: "json_event list \<Rightarrow> ('c, 'b) world \<Rightarrow> i32 \<times> ('c, 'b) world" where
  "send_json_gen gen w = (0, emit (H2o_send_inline (Yajl gen)) (emit (H2o_add_content_type ''application/json'') w))"

text \<open>
  A generator owns a yajl handle, \<open>None\<close> when \<open>yajl_gen_alloc\<close> failed. The result of \<open>malloc\<close> is not checked.
\<close>

record json_generator =
  jg_gen :: "nat option"
  jg_in_use :: bool

definition get_json_generator :: "bool \<Rightarrow> nat option \<Rightarrow> json_generator result" where
  "get_json_generator malloc_ok gen = guardR malloc_ok NullDeref (Inr \<lparr>jg_gen = gen, jg_in_use = True\<rparr>)"

text \<open>The yajl handles and the number of generators that are freed.\<close>

definition free_json_generator :: "json_generator option \<Rightarrow> nat list \<times> nat" where
  "free_json_generator gen =
     (case gen of
        None \<Rightarrow> ([], 0)
      | Some g \<Rightarrow> (case jg_gen g of None \<Rightarrow> [] | Some h \<Rightarrow> [h], 1))"

section \<open>Global and per-thread state\<close>

text \<open>
  The state of \<open>fdb_global_t\<close>; \<open>thread_states\<close> is the number of zeroed entries of the array, \<open>None\<close> for
  \<open>NULL\<close>. The errors of the client library are arguments.
\<close>

record fdb_global =
  cluster_file :: string
  thread_states :: "nat option"
  num_threads :: size_t
  network_started :: bool

definition FDB_CLUSTER_FILE_DEFAULT :: string where
  "FDB_CLUSTER_FILE_DEFAULT = ''/etc/foundationdb/fdb.cluster''"

definition fdb_global_init ::
  "string option \<Rightarrow> size_t \<Rightarrow> bool \<Rightarrow> fdb_error \<Rightarrow> fdb_error \<Rightarrow> i32 \<times> fdb_global" where
  "fdb_global_init file n calloc_ok select_err setup_err =
     (let fdb = \<lparr>cluster_file = (case file of None \<Rightarrow> FDB_CLUSTER_FILE_DEFAULT | Some f \<Rightarrow> f),
                 thread_states = (if calloc_ok then Some (unat n) else None), num_threads = n, network_started = False\<rparr>
      in if select_err \<noteq> 0 then (select_err, fdb)
         else if setup_err \<noteq> 0 then (setup_err, fdb)
         else (0, fdb\<lparr>network_started := True\<rparr>))"

text \<open>\<open>fdb_create_database\<close> yields an error or a handle.\<close>

definition fdb_thread_init :: "nat \<Rightarrow> fdb_error + nat \<Rightarrow> i32 \<times> fdb_thread_state" where
  "fdb_thread_init loop created =
     (let st = \<lparr>db = None, ts_loop = loop, active_transactions = 0, max_transactions = 0\<rparr>
      in case created of Inl err \<Rightarrow> (err, st) | Inr d \<Rightarrow> (0, st\<lparr>db := Some d\<rparr>))"

text \<open>The databases \<open>fdb_thread_cleanup\<close> destroys, and whether \<open>fdb_global_cleanup\<close> stops the network.\<close>

definition fdb_thread_cleanup :: "fdb_thread_state \<Rightarrow> nat list" where
  "fdb_thread_cleanup st = (case db st of None \<Rightarrow> [] | Some d \<Rightarrow> [d])"

definition fdb_global_cleanup :: "fdb_global \<Rightarrow> bool \<times> fdb_global" where
  "fdb_global_cleanup fdb = (network_started fdb, fdb\<lparr>thread_states := None\<rparr>)"

end
