(* ===== verification/Callback_Chain.thy ===== *)
theory Callback_Chain
  imports Fdb_Database
begin

text \<open>
  The contract of a chain of callbacks and what follows from it. A transaction provides the
  body of each of its callbacks; when a body runs on a request whose context and transaction
  are alive, it must register exactly one further callback, or answer the request once and
  release everything, or, when the adapter could not register the callback, leave the request
  as it is. From this the locale derives, for every interleaving and every reply of the
  database, that a request is answered at most once, that its memory is released exactly
  with the answer, and that it is never touched afterwards.
\<close>

section \<open>Responses\<close>

fun is_response :: "call \<Rightarrow> bool" where
  "is_response (H2o_send_inline b) = True"
| "is_response (H2o_send_error_generic s r b) = True"
| "is_response (H2o_send_error_503 r b) = True"
| "is_response _ = False"

definition responses :: "call list \<Rightarrow> nat" where
  "responses cs = length (filter is_response cs)"

lemma responses_simps [simp]:
  "responses [] = 0"
  "responses (c # cs) = (if is_response c then 1 else 0) + responses cs"
  "responses (cs @ ds) = responses cs + responses ds"
  by (simp_all add: responses_def)

text \<open>The writes among the calls, in order.\<close>

fun is_write :: "call \<Rightarrow> bool" where
  "is_write (Fdb_set k v) = True"
| "is_write _ = False"

definition writes :: "call list \<Rightarrow> call list" where
  "writes cs = filter is_write cs"

lemma writes_simps [simp]:
  "writes [] = []"
  "writes (c # cs) = (if is_write c then c # writes cs else writes cs)"
  "writes (cs @ ds) = writes cs @ writes ds"
  by (simp_all add: writes_def)

lemma writes_all: "list_all is_write cs \<Longrightarrow> writes cs = cs \<and> responses cs = 0"
proof (induction cs)
  case (Cons c cs)
  then show ?case by (cases c) simp_all
qed simp

section \<open>Outcomes of a callback body\<close>

text \<open>Registration works: every call returns a future, memory is there, registering succeeds.\<close>

definition reliable :: "env \<Rightarrow> bool" where
  "reliable e \<longleftrightarrow> (\<forall>l. e_future e l \<and> e_malloc e l \<and> e_set_callback e l = 0)"

definition alive :: "('b \<Rightarrow> 'c \<Rightarrow> bool) \<Rightarrow> 'b \<Rightarrow> ('c, 'b) world \<Rightarrow> bool" where
  "alive ok b w \<longleftrightarrow> (\<exists>c. ctx w = Some c \<and> ok b c) \<and> tr w \<and> responses (log w) = 0"

definition continues :: "('b \<Rightarrow> 'c \<Rightarrow> bool) \<Rightarrow> ('c, 'b) world \<Rightarrow> ('c, 'b) world \<Rightarrow> bool" where
  "continues ok w w' \<longleftrightarrow> (\<exists>b. alive ok b w' \<and> pending w' = pending w @ [b]) \<and>
     futures w' = futures w + 1 \<and> wrappers w' = wrappers w + 1"

definition finishes :: "('c, 'b) world \<Rightarrow> ('c, 'b) world \<Rightarrow> bool" where
  "finishes w w' \<longleftrightarrow> ctx w' = None \<and> \<not> tr w' \<and> responses (log w') = 1 \<and> pending w' = pending w \<and>
     futures w' = futures w \<and> wrappers w' = wrappers w"

definition stalls :: "('c, 'b) world \<Rightarrow> ('c, 'b) world \<Rightarrow> bool" where
  "stalls w w' \<longleftrightarrow> ctx w' \<noteq> None \<and> tr w' \<and> responses (log w') = 0 \<and> pending w' = pending w \<and>
     futures w' = futures w \<and> wrappers w' = wrappers w"

definition good_outcome ::
  "('b \<Rightarrow> 'c \<Rightarrow> bool) \<Rightarrow> bool \<Rightarrow> fault set \<Rightarrow> ('c, 'b) world \<Rightarrow> ('c, 'b) world result \<Rightarrow> bool" where
  "good_outcome ok rel faults w res \<longleftrightarrow> (case res of
       Inl f \<Rightarrow> f \<in> faults
     | Inr w' \<Rightarrow> continues ok w w' \<or> finishes w w' \<or> \<not> rel \<and> stalls w w')"

lemma good_outcome_Inr:
  "good_outcome ok rel faults w (Inr w') \<longleftrightarrow> continues ok w w' \<or> finishes w w' \<or> \<not> rel \<and> stalls w w'"
  by (simp add: good_outcome_def)

lemma good_outcome_Inl: "good_outcome ok rel faults w (Inl f) \<longleftrightarrow> f \<in> faults"
  by (simp add: good_outcome_def)

lemma good_outcome_bind_schk:
  fixes f :: "'w::len word \<Rightarrow> ('c, 'b) world result"
  assumes "SignedOverflow \<in> faults" and "\<And>v. schk i = Inr v \<Longrightarrow> good_outcome ok rel faults w (f v)"
  shows "good_outcome ok rel faults w (bindR (schk i) f)"
  using assms by (cases "schk i :: 'w word result") (auto simp: good_outcome_Inl schk_def split: if_splits)

text \<open>The building blocks of the callback bodies and their outcomes.\<close>

named_theorems outcome_intros \<open>outcomes of the last call of a callback body\<close>

text \<open>
  What the bodies may do to a world before their last call: change the context and log calls that are not
  responses.
\<close>

definition quiet :: "('c, 'b) world \<Rightarrow> ('c, 'b) world \<Rightarrow> bool" where
  "quiet w w' \<longleftrightarrow> tr w' = tr w \<and> responses (log w') = responses (log w) \<and> pending w' = pending w \<and>
     futures w' = futures w \<and> wrappers w' = wrappers w"

lemma quiet_refl [simp]: "quiet w w"
  by (simp add: quiet_def)

lemma quiet_trans: "quiet a b \<Longrightarrow> quiet b c \<Longrightarrow> quiet a c"
  by (simp add: quiet_def)

lemma quiet_ctx [simp]: "quiet w (w\<lparr>ctx := c\<rparr>)"
  by (simp add: quiet_def)

lemma async_call_outcome:
  assumes "tr w'" and "quiet w w'" and "responses (log w) = 0" and "ctx w' = Some c" and "ok cb c"
    and "\<not> is_response call" and "reliable e = rel"
  shows "good_outcome ok rel faults w (ignore_rc (async_call e call failed cb w'))"
proof -
  have r: "responses (log w') = 0" using assms(2,3) by (simp add: quiet_def)
  show ?thesis
    using assms r unfolding async_call_def submit_future_def ignore_rc_def
    by (auto simp: Let_def good_outcome_def continues_def stalls_def alive_def emit_def quiet_def reliable_def)
qed

lemma async_outcomes [outcome_intros]:
  assumes "tr w'" and "quiet w w'" and "responses (log w) = 0" and "ctx w' = Some c" and "ok cb c"
    and "reliable e = rel"
  shows "good_outcome ok rel faults w (ignore_rc (fdb_async_get e key cb w'))"
    and "good_outcome ok rel faults w (ignore_rc (fdb_async_get_range e kb ke cb w'))"
    and "good_outcome ok rel faults w (ignore_rc (fdb_async_commit e cb w'))"
    and "good_outcome ok rel faults w (ignore_rc (fdb_handle_error e err cb w'))"
  unfolding fdb_async_get_def fdb_async_get_range_def fdb_async_commit_def fdb_handle_error_def
  by (rule async_call_outcome [where c = c and ok = ok]; simp add: assms)+

lemma release_outcome [outcome_intros]:
  assumes "tr w'" and "quiet w w'" and "responses (log w) = 0" and "ctx w' \<noteq> None" and "is_response c"
  shows "good_outcome ok rel faults w (release (emit c w'))"
  using assms by (auto simp: release_def emit_def good_outcome_def finishes_def quiet_def)

lemma with_ctx_Some [simp]: "ctx w = Some c \<Longrightarrow> with_ctx w f = f c"
  by (simp add: with_ctx_def)

lemma fdb_sync_set_tr [simp]: "tr w \<Longrightarrow> fdb_sync_set k v w = Inr (emit (Fdb_set k v) w)"
  by (simp add: fdb_sync_set_def)

lemma emit_simps [simp]:
  "ctx (emit c w) = ctx w" "tr (emit c w) = tr w" "pending (emit c w) = pending w"
  "futures (emit c w) = futures w" "wrappers (emit c w) = wrappers w" "fdb_state (emit c w) = fdb_state w"
  "log (emit c w) = log w @ [c]"
  by (simp_all add: emit_def)

text \<open>A list of calls in the log at once; a loop of writes adds the calls of its passes.\<close>

definition emits :: "call list \<Rightarrow> ('c, 'b) world \<Rightarrow> ('c, 'b) world" where
  "emits cs w = w\<lparr>log := log w @ cs\<rparr>"

lemma emits_simps [simp]:
  "ctx (emits cs w) = ctx w" "tr (emits cs w) = tr w" "pending (emits cs w) = pending w"
  "futures (emits cs w) = futures w" "wrappers (emits cs w) = wrappers w" "fdb_state (emits cs w) = fdb_state w"
  "log (emits cs w) = log w @ cs"
  by (simp_all add: emits_def)

lemma emits_emit: "emit c w = emits [c] w" "emits cs (emits ds w) = emits (ds @ cs) w" "emits [] w = w"
  by (simp_all add: emits_def emit_def)

lemma quiet_emits: "list_all (\<lambda>c. \<not> is_response c) cs \<Longrightarrow> quiet w (emits cs w)"
  by (auto simp: quiet_def responses_def list_all_iff filter_empty_conv)

lemma forR_emits:
  assumes "tr w" and "\<And>i w. i \<in> set is \<Longrightarrow> tr w \<Longrightarrow> f i w = Inr (emit (g i) w)"
  shows "forR is f w = Inr (emits (map g is) w)"
  using assms
proof (induction "is" arbitrary: w)
  case (Cons i "is")
  then show ?case by (simp add: emits_emit)
qed (simp add: emits_emit)

section \<open>Starting a request\<close>

text \<open>
  The end of every entry point: create the transaction, answer 503 when that fails, otherwise make
  the first asynchronous call.
\<close>

definition begin_request :: "string \<Rightarrow> (('c, 'b) world \<Rightarrow> ('c, 'b) world result) \<Rightarrow> env \<Rightarrow> ('c, 'b) world \<Rightarrow> ('c, 'b) world result" where
  "begin_request msg first e w =
     bindR (fdb_create_transaction e w) (\<lambda>(rc, w).
       if rc \<noteq> 0
       then Inr (emit (H2o_send_error_503 ''Service Unavailable'' msg) (w\<lparr>ctx := None\<rparr>))
       else first w)"

section \<open>Firing callbacks\<close>

text \<open>A pending callback fires with any reply.\<close>

inductive chain_step ::
  "('b \<Rightarrow> fdb_reply \<Rightarrow> ('c, 'b) world \<Rightarrow> ('c, 'b) world result) \<Rightarrow> ('c, 'b) world \<Rightarrow> ('c, 'b) world \<Rightarrow> bool"
  for run where
  fire: "pending w = xs @ b # ys \<Longrightarrow> future_callback run b r (w\<lparr>pending := xs @ ys\<rparr>) = Inr w' \<Longrightarrow>
    chain_step run w w'"

inductive_cases chain_stepE [elim]: "chain_step run w w'"

text \<open>The three states of a request once its first call has been made.\<close>

definition waiting :: "('b \<Rightarrow> 'c \<Rightarrow> bool) \<Rightarrow> ('c, 'b) world \<Rightarrow> bool" where
  "waiting ok w \<longleftrightarrow> (\<exists>b. alive ok b w \<and> pending w = [b]) \<and> futures w = 1 \<and> wrappers w = 1"

definition finished :: "('c, 'b) world \<Rightarrow> bool" where
  "finished w \<longleftrightarrow> ctx w = None \<and> \<not> tr w \<and> responses (log w) = 1 \<and> pending w = [] \<and>
     futures w = 0 \<and> wrappers w = 0"

definition stalled :: "('c, 'b) world \<Rightarrow> bool" where
  "stalled w \<longleftrightarrow> ctx w \<noteq> None \<and> tr w \<and> responses (log w) = 0 \<and> pending w = [] \<and>
     futures w = 0 \<and> wrappers w = 0"

definition request_state :: "('b \<Rightarrow> 'c \<Rightarrow> bool) \<Rightarrow> bool \<Rightarrow> ('c, 'b) world \<Rightarrow> bool" where
  "request_state ok rel w \<longleftrightarrow> waiting ok w \<or> finished w \<or> \<not> rel \<and> stalled w"

text \<open>
  What a client of the adapter may rely on in a state of a request: at most one response has been sent; the
  context and the transaction are released exactly when it has been sent; every live future and
  wrapper belongs to a pending callback; where registering never fails, an unanswered
  request waits for exactly one callback; and whatever a pending callback is called with, it
  does not go wrong but for the admitted faults.
\<close>

definition request_safe ::
  "('b \<Rightarrow> fdb_reply \<Rightarrow> ('c, 'b) world \<Rightarrow> ('c, 'b) world result) \<Rightarrow> bool \<Rightarrow> fault set \<Rightarrow> ('c, 'b) world \<Rightarrow> bool" where
  "request_safe run rel faults w \<longleftrightarrow>
     responses (log w) \<le> 1 \<and> (responses (log w) = 1 \<longleftrightarrow> ctx w = None) \<and> (ctx w = None \<longleftrightarrow> \<not> tr w) \<and>
     futures w = length (pending w) \<and> wrappers w = length (pending w) \<and>
     (rel \<and> responses (log w) = 0 \<longrightarrow> (\<exists>b. pending w = [b])) \<and>
     (\<forall>xs b ys r f. pending w = xs @ b # ys \<longrightarrow>
        future_callback run b r (w\<lparr>pending := xs @ ys\<rparr>) = Inl f \<longrightarrow> f \<in> faults)"

locale callback_chain =
  fixes run :: "'b \<Rightarrow> fdb_reply \<Rightarrow> ('c, 'b) world \<Rightarrow> ('c, 'b) world result"
    and ok :: "'b \<Rightarrow> 'c \<Rightarrow> bool"
    and rel :: bool
    and faults :: "fault set"
  assumes run_outcome: "alive ok b w \<Longrightarrow> good_outcome ok rel faults w (run b r w)"
begin

lemma fire_outcome:
  assumes "waiting ok w" and "pending w = xs @ b # ys"
  shows "(\<exists>f \<in> faults. future_callback run b r (w\<lparr>pending := xs @ ys\<rparr>) = Inl f) \<or>
    (\<exists>w'. future_callback run b r (w\<lparr>pending := xs @ ys\<rparr>) = Inr w' \<and>
      (waiting ok w' \<or> finished w' \<or> \<not> rel \<and> stalled w'))"
proof -
  have xs: "xs = []" "ys = []" and b: "alive ok b w" "futures w = 1" "wrappers w = 1"
    using assms by (auto simp: waiting_def append_eq_Cons_conv)
  let ?w = "w\<lparr>pending := []\<rparr>"
  have "good_outcome ok rel faults ?w (run b r ?w)"
    using b(1) by (intro run_outcome) (simp add: alive_def)
  then show ?thesis
    using b xs
    by (cases "run b r ?w")
      (auto simp: good_outcome_def future_callback_def continues_def finishes_def stalls_def waiting_def
        finished_def stalled_def alive_def emit_def)
qed

text \<open>Every reachable state of a request is one of the three.\<close>

lemma reachable_states:
  assumes "(chain_step run)\<^sup>*\<^sup>* w w'" and "request_state ok rel w"
  shows "request_state ok rel w'"
  using assms
proof (induction rule: rtranclp_induct)
  case (step v w')
  from step.hyps(2) obtain xs b ys r where
    fire: "pending v = xs @ b # ys" "future_callback run b r (v\<lparr>pending := xs @ ys\<rparr>) = Inr w'"
    by blast
  then have "waiting ok v"
    using step.IH [OF step.prems] by (auto simp: request_state_def finished_def stalled_def)
  then show ?case
    using fire_outcome [OF _ fire(1), of r] fire(2) by (auto simp: request_state_def)
qed simp

lemma admitted_faults:
  assumes "request_state ok rel w" and "pending w = xs @ b # ys"
    and "future_callback run b r (w\<lparr>pending := xs @ ys\<rparr>) = Inl f"
  shows "f \<in> faults"
proof -
  have "waiting ok w"
    using assms(1,2) by (auto simp: request_state_def finished_def stalled_def)
  then show ?thesis using fire_outcome [OF _ assms(2), of r] assms(3) by auto
qed

lemma reachable_safe:
  assumes "(chain_step run)\<^sup>*\<^sup>* w w'" and "request_state ok rel w"
  shows "request_safe run rel faults w'"
  unfolding request_safe_def
proof (intro conjI allI impI)
  note st = reachable_states [OF assms]
  then show "responses (log w') \<le> 1" "responses (log w') = 1 \<longleftrightarrow> ctx w' = None" "ctx w' = None \<longleftrightarrow> \<not> tr w'"
      "futures w' = length (pending w')" "wrappers w' = length (pending w')"
    by (auto simp: request_state_def waiting_def finished_def stalled_def alive_def)
  show "\<exists>b. pending w' = [b]" if "rel \<and> responses (log w') = 0"
    using st that by (auto simp: request_state_def waiting_def finished_def)
  show "f \<in> faults" if "pending w' = xs @ b # ys" "future_callback run b r (w'\<lparr>pending := xs @ ys\<rparr>) = Inl f"
    for xs b ys r f
    using admitted_faults [OF st that] .
qed

end

section \<open>Runs with given replies\<close>

text \<open>The pending callback fires with the next reply, until the replies or the callbacks run out.\<close>

fun run_chain ::
  "('b \<Rightarrow> fdb_reply \<Rightarrow> ('c, 'b) world \<Rightarrow> ('c, 'b) world result) \<Rightarrow> fdb_reply list \<Rightarrow> ('c, 'b) world \<Rightarrow>
   ('c, 'b) world result" where
  "run_chain run [] w = Inr w"
| "run_chain run (r # rs) w =
     (case pending w of
        [] \<Rightarrow> Inr w
      | b # bs \<Rightarrow> bindR (future_callback run b r (w\<lparr>pending := bs\<rparr>)) (run_chain run rs))"

lemma run_chain_reaches: "run_chain run rs w = Inr w' \<Longrightarrow> (chain_step run)\<^sup>*\<^sup>* w w'"
proof (induction rs arbitrary: w)
  case (Cons r rs)
  show ?case
  proof (cases "pending w")
    case (Cons b bs)
    then obtain v where v: "future_callback run b r (w\<lparr>pending := bs\<rparr>) = Inr v" "run_chain run rs v = Inr w'"
      using Cons.prems by (auto simp: bindR_eq_Inr_iff)
    then have "chain_step run w v"
      using chain_step.fire [of w "[]" b bs run r v] Cons by simp
    then show ?thesis using Cons.IH [OF v(2)] by (meson converse_rtranclp_into_rtranclp)
  qed (use Cons.prems in simp)
qed simp

lemma run_chain_append:
  "run_chain run (rs @ rs') w = bindR (run_chain run rs w) (run_chain run rs')"
proof (induction rs arbitrary: w)
  case (Cons r rs)
  show ?case
  proof (cases "pending w")
    case Nil
    then show ?thesis by (cases rs') simp_all
  next
    case (Cons b bs)
    then show ?thesis
      by (cases "future_callback run b r (w\<lparr>pending := bs\<rparr>)") (simp_all add: Cons.IH)
  qed
qed simp

text \<open>A request with context \<open>c\<close> and log \<open>l\<close> while a callback runs, and while \<open>b\<close> is pending.\<close>

definition running_world :: "fdb_thread_state option \<Rightarrow> 'c \<Rightarrow> call list \<Rightarrow> ('c, 'b) world" where
  "running_world st c l = \<lparr>ctx = Some c, fdb_state = st, tr = True, pending = [], futures = 1, wrappers = 1, log = l\<rparr>"

definition waiting_world :: "fdb_thread_state option \<Rightarrow> 'c \<Rightarrow> call list \<Rightarrow> 'b \<Rightarrow> ('c, 'b) world" where
  "waiting_world st c l b = \<lparr>ctx = Some c, fdb_state = st, tr = True, pending = [b], futures = 1, wrappers = 1, log = l\<rparr>"

definition finished_world :: "fdb_thread_state option \<Rightarrow> call list \<Rightarrow> ('c, 'b) world" where
  "finished_world st l = \<lparr>ctx = None, fdb_state = st, tr = False, pending = [], futures = 0, wrappers = 0, log = l\<rparr>"

definition registered :: "'b \<Rightarrow> ('c, 'b) world \<Rightarrow> ('c, 'b) world" where
  "registered b w = w\<lparr>pending := pending w @ [b], futures := futures w + 1, wrappers := wrappers w + 1\<rparr>"

lemma running_world_simps [simp]:
  "ctx (running_world st c l) = Some c" "tr (running_world st c l)" "log (running_world st c l) = l"
  "(running_world st c l)\<lparr>ctx := Some c'\<rparr> = running_world st c' l"
  "emit d (running_world st c l) = running_world st c (l @ [d])"
  "emits ds (running_world st c l) = running_world st c (l @ ds)"
  by (simp_all add: running_world_def emit_def emits_def)

lemma run_chain_continue:
  assumes "run b r (running_world st c l) = Inr (registered b' (running_world st c' l'))"
  shows "run_chain run (r # rs) (waiting_world st c l b) =
    run_chain run rs (waiting_world st c' (l' @ [Fdb_future_destroy]) b')"
proof -
  have "(waiting_world st c l b)\<lparr>pending := []\<rparr> = running_world st c l" "pending (waiting_world st c l b) = [b]"
    by (simp_all add: waiting_world_def running_world_def)
  then show ?thesis
    using assms by (simp add: future_callback_def) (simp add: registered_def running_world_def waiting_world_def emit_def)
qed

lemma run_chain_finish:
  assumes "run b r (running_world st c l) = release (running_world st c' l')"
  shows "run_chain run [r] (waiting_world st c l b) =
    Inr (finished_world st (l' @ [Fdb_transaction_destroy, Fdb_future_destroy]))"
proof -
  have "(waiting_world st c l b)\<lparr>pending := []\<rparr> = running_world st c l" "pending (waiting_world st c l b) = [b]"
    by (simp_all add: waiting_world_def running_world_def)
  then show ?thesis
    using assms
    by (simp add: future_callback_def release_def) (simp add: running_world_def finished_world_def emit_def)
qed

lemma reliable_async:
  assumes "reliable e" and "tr w"
  shows "ignore_rc (fdb_async_get e k b w) = Inr (registered b (emit (Fdb_get k) w))"
    and "ignore_rc (fdb_async_commit e b w) = Inr (registered b (emit Fdb_commit w))"
    and "ignore_rc (fdb_handle_error e err b w) = Inr (registered b (emit (Fdb_on_error err) w))"
    and "ignore_rc (fdb_async_get_range e kb ke b w) = Inr (registered b (emit
      (Fdb_get_range \<lparr>ks_key = kb, ks_or_equal = False, ks_offset = 0\<rparr> \<lparr>ks_key = ke, ks_or_equal = False, ks_offset = 0\<rparr>) w))"
  using assms
  by (simp_all add: fdb_async_get_def fdb_async_commit_def fdb_handle_error_def fdb_async_get_range_def
      async_call_def submit_future_def reliable_def ignore_rc_def registered_def Let_def)

text \<open>Replies of a database that answers: a row, and a commit or reset that worked.\<close>

definition row_reply :: "bytes \<Rightarrow> fdb_reply" where
  "row_reply v = \<lparr>r_error = 0, r_get_error = 0, r_present = True, r_value = v, r_kvs = []\<rparr>"

definition ok_reply :: fdb_reply where
  "ok_reply = \<lparr>r_error = 0, r_get_error = 0, r_present = False, r_value = [], r_kvs = []\<rparr>"

lemma reply_simps [simp]:
  "r_error (row_reply v) = 0" "r_error ok_reply = 0" "length v \<ge> n \<Longrightarrow> value_of_size n (row_reply v) = Some v"
  by (simp_all add: row_reply_def ok_reply_def value_of_size_def)

section \<open>The first states of a request\<close>

text \<open>A request whose context has just been set up, before \<open>fdb_create_transaction\<close>.\<close>

definition fresh_request :: "fdb_thread_state \<Rightarrow> 'c \<Rightarrow> ('c, 'b) world \<Rightarrow> bool" where
  "fresh_request st c w \<longleftrightarrow> ctx w = Some c \<and> fdb_state w = Some st \<and> db st \<noteq> None \<and> \<not> tr w \<and>
     pending w = [] \<and> futures w = 0 \<and> wrappers w = 0 \<and> responses (log w) = 0"

lemma create_transaction_cases:
  assumes "fresh_request st c w"
  shows "(\<exists>rc w'. fdb_create_transaction e w = Inr (rc, w') \<and> rc \<noteq> 0 \<and> \<not> tr w' \<and> quiet w w') \<or>
    (\<exists>w'. fdb_create_transaction e w = Inr (0, w') \<and> ctx w' = Some c \<and> tr w' \<and> quiet (w\<lparr>tr := True\<rparr>) w')"
  using assms by (auto simp: fdb_create_transaction_def fresh_request_def Let_def quiet_def)

lemma begin_request_outcome:
  assumes "fresh_request st c w"
    and "\<And>w'. ctx w' = Some c \<Longrightarrow> tr w' \<Longrightarrow> responses (log w') = 0 \<Longrightarrow> good_outcome ok rel {} w' (first w')"
  shows "\<exists>w'. begin_request msg first e w = Inr w' \<and> request_state ok rel w'"
  using create_transaction_cases [OF assms(1), of e]
proof (elim disjE exE conjE)
  fix rc w'
  assume "fdb_create_transaction e w = Inr (rc, w')" "rc \<noteq> 0" "\<not> tr w'" "quiet w w'"
  then show ?thesis
    using assms(1) by (auto simp: begin_request_def request_state_def finished_def quiet_def fresh_request_def)
next
  fix w'
  assume w': "fdb_create_transaction e w = Inr (0, w')" "ctx w' = Some c" "tr w'" "quiet (w\<lparr>tr := True\<rparr>) w'"
  then have z: "responses (log w') = 0" "pending w' = []" "futures w' = 0" "wrappers w' = 0"
    using assms(1) by (auto simp: quiet_def fresh_request_def)
  show ?thesis
    using assms(2) [OF w'(2,3) z(1)] w' z
    by (cases "first w'")
      (auto simp: begin_request_def request_state_def good_outcome_def continues_def finishes_def stalls_def waiting_def
        finished_def stalled_def alive_def)
qed

text \<open>A request before and after its transaction has been created, in an environment where that works.\<close>

definition fresh_world :: "fdb_thread_state \<Rightarrow> 'c \<Rightarrow> ('c, 'b) world" where
  "fresh_world st c = \<lparr>ctx = Some c, fdb_state = Some st, tr = False, pending = [], futures = 0, wrappers = 0, log = []\<rparr>"

definition begun_world :: "fdb_thread_state \<Rightarrow> 'c \<Rightarrow> ('c, 'b) world" where
  "begun_world st c = \<lparr>ctx = Some c, fdb_state = Some (st\<lparr>active_transactions := active_transactions st + 1\<rparr>),
     tr = True, pending = [], futures = 0, wrappers = 0, log = [Fdb_create_transaction]\<rparr>"

lemma begun_world_simps [simp]:
  "ctx (begun_world st c) = Some c" "tr (begun_world st c)" "log (begun_world st c) = [Fdb_create_transaction]"
  by (simp_all add: begun_world_def)

lemma fresh_world_request: "db st \<noteq> None \<Longrightarrow> fresh_request st c (fresh_world st c)"
  by (simp add: fresh_request_def fresh_world_def)

lemma begin_request_begun:
  assumes "db st \<noteq> None" and "e_create e [Fdb_create_transaction] = 0"
  shows "begin_request msg first e (fresh_world st c) = first (begun_world st c)"
  using assms
  by (simp add: begin_request_def fdb_create_transaction_def fresh_world_def begun_world_def emit_def Let_def)

lemma registered_begun:
  "registered b (emit k (begun_world st c)) =
     waiting_world (Some (st\<lparr>active_transactions := active_transactions st + 1\<rparr>)) c [Fdb_create_transaction, k] b"
  by (simp add: registered_def emit_def begun_world_def waiting_world_def)

text \<open>An environment in which every call works, for concrete runs.\<close>

definition sunny_env :: env where
  "sunny_env = \<lparr>e_calloc = (\<lambda>_. True), e_calloc_array = (\<lambda>_ _. True), e_malloc = (\<lambda>_. True),
     e_time = (\<lambda>_. 1700000000), e_rand_r = (\<lambda>s. (s, s + 1)), e_seed = (\<lambda>_. 7),
     e_byte_order = Little_Endian, e_create = (\<lambda>_. 0), e_future = (\<lambda>_. True), e_set_callback = (\<lambda>_. 0)\<rparr>"

definition sunny_state :: fdb_thread_state where
  "sunny_state = \<lparr>db = Some 1, ts_loop = 1, active_transactions = 0, max_transactions = 0\<rparr>"

lemma sunny_simps [simp]:
  "reliable sunny_env" "e_create sunny_env l = 0" "e_byte_order sunny_env = Little_Endian" "db sunny_state \<noteq> None"
  "e_calloc sunny_env l"
  by (simp_all add: sunny_env_def reliable_def sunny_state_def)

section \<open>The store after a transaction\<close>

text \<open>The effect of a transaction's writes on the rows, as the store applies them on commit, in order.\<close>

type_synonym rows = "bytes \<Rightarrow> bytes option"

definition apply_write :: "call \<Rightarrow> rows \<Rightarrow> rows" where
  "apply_write c s = (case c of Fdb_set k v \<Rightarrow> s(k \<mapsto> v) | _ \<Rightarrow> s)"

definition apply_writes :: "call list \<Rightarrow> rows \<Rightarrow> rows" where
  "apply_writes cs s = fold apply_write cs s"

lemma apply_writes_simps [simp]:
  "apply_writes [] s = s"
  "apply_writes (c # cs) s = apply_writes cs (apply_write c s)"
  "apply_writes (cs @ ds) s = apply_writes ds (apply_writes cs s)"
  "apply_write (Fdb_set k v) s = s(k \<mapsto> v)"
  by (simp_all add: apply_writes_def apply_write_def)

lemma apply_writes_other:
  assumes "\<And>v. Fdb_set k v \<notin> set cs"
  shows "apply_writes cs s k = s k"
  using assms
proof (induction cs arbitrary: s)
  case (Cons c cs)
  then have "apply_write c s k = s k"
    by (cases c) (auto simp: apply_write_def)
  then show ?case using Cons by simp
qed simp

end
