(* ===== verification/Served_Requests.thy ===== *)
theory Served_Requests
  imports Callback_Chain
begin

text \<open>
  Requests served by a store. \<open>serve\<close> runs a chain of callbacks on replies that depend on the calls made so far, and
  \<open>store_reply\<close> gives the replies of a store that answers, \<open>contended_reply\<close> those of one whose commits conflict. Two contracts
  extend that of \<open>callback_chain\<close>: a chain whose callbacks come closer to the end with every call or ask for a retry
  (\<open>ranked_chain\<close>), so that a request is answered after a number of callbacks that its retries bound; and a chain that
  writes rows of the right shape only (\<open>shaping_chain\<close>), so that a store of well-shaped rows stays one. A third
  (\<open>retried_chain\<close>) is that of a transaction whose attempts do what a specification says of the rows they see: however often its
  commit conflicts, it ends as specified for the rows of its last attempt.
\<close>

section \<open>Serving a request\<close>

fun serve ::
  "nat \<Rightarrow> ('b \<Rightarrow> fdb_reply \<Rightarrow> ('c, 'b) world \<Rightarrow> ('c, 'b) world result) \<Rightarrow> (call list \<Rightarrow> fdb_reply) \<Rightarrow> ('c, 'b) world \<Rightarrow>
   ('c, 'b) world result" where
  "serve 0 run reply w = Inr w"
| "serve (Suc n) run reply w =
     (case pending w of
        [] \<Rightarrow> Inr w
      | b # bs \<Rightarrow> bindR (future_callback run b (reply (log w)) (w\<lparr>pending := bs\<rparr>)) (serve n run reply))"

lemma serve_reaches: "serve n run reply w = Inr w' \<Longrightarrow> (chain_step run)\<^sup>*\<^sup>* w w'"
proof (induction n arbitrary: w)
  case (Suc n)
  show ?case
  proof (cases "pending w")
    case (Cons b bs)
    then obtain v where v: "future_callback run b (reply (log w)) (w\<lparr>pending := bs\<rparr>) = Inr v" "serve n run reply v = Inr w'"
      using Suc.prems by (auto simp: bindR_eq_Inr_iff)
    then have "chain_step run w v"
      using chain_step.fire [of w "[]" b bs run "reply (log w)" v] Cons by simp
    then show ?thesis using Suc.IH [OF v(2)] by (meson converse_rtranclp_into_rtranclp)
  qed (use Suc.prems in simp)
qed simp

lemma serve_done: "pending w = [] \<Longrightarrow> serve n run reply w = Inr w"
  by (cases n) simp_all

lemma serve_more: "serve n run reply w = Inr w' \<Longrightarrow> pending w' = [] \<Longrightarrow> serve (n + k) run reply w = Inr w'"
proof (induction n arbitrary: w)
  case (Suc n)
  show ?case
  proof (cases "pending w")
    case (Cons b bs)
    then show ?thesis using Suc.prems Suc.IH by (auto simp: bindR_eq_Inr_iff)
  qed (use Suc.prems in simp)
qed (simp add: serve_done)

lemma serve_fault_more: "serve n run reply w = Inl f \<Longrightarrow> serve (n + k) run reply w = Inl f"
proof (induction n arbitrary: w)
  case (Suc n)
  show ?case
  proof (cases "pending w")
    case (Cons b bs)
    then show ?thesis using Suc.prems Suc.IH by (auto simp: bindR_eq_Inl_iff)
  qed (use Suc.prems in simp)
qed simp

lemma serve_continue:
  assumes "run b (reply l) (running_world st c l) = Inr (registered b' (running_world st c' l'))"
  shows "serve (Suc n) run reply (waiting_world st c l b) =
    serve n run reply (waiting_world st c' (l' @ [Fdb_future_destroy]) b')"
proof -
  have "(waiting_world st c l b)\<lparr>pending := []\<rparr> = running_world st c l" "pending (waiting_world st c l b) = [b]"
      "log (waiting_world st c l b) = l"
    by (simp_all add: waiting_world_def running_world_def)
  then show ?thesis
    using assms by (simp add: future_callback_def) (simp add: registered_def running_world_def waiting_world_def emit_def)
qed

lemma serve_finish:
  assumes "run b (reply l) (running_world st c l) = release (running_world st c' l')"
  shows "serve (Suc n) run reply (waiting_world st c l b) =
    Inr (finished_world st (l' @ [Fdb_transaction_destroy, Fdb_future_destroy]))"
proof -
  have "(waiting_world st c l b)\<lparr>pending := []\<rparr> = running_world st c l" "pending (waiting_world st c l b) = [b]"
      "log (waiting_world st c l b) = l"
    by (simp_all add: waiting_world_def running_world_def)
  moreover have "pending (finished_world st l'') = []" for l'' by (simp add: finished_world_def)
  ultimately show ?thesis
    using assms
    by (simp add: future_callback_def release_def) (simp add: running_world_def finished_world_def emit_def serve_done)
qed

lemma serve_fault:
  assumes "run b (reply l) (running_world st c l) = Inl f"
  shows "serve (Suc n) run reply (waiting_world st c l b) = Inl f"
proof -
  have "(waiting_world st c l b)\<lparr>pending := []\<rparr> = running_world st c l" "pending (waiting_world st c l b) = [b]"
      "log (waiting_world st c l b) = l"
    by (simp_all add: waiting_world_def running_world_def)
  then show ?thesis using assms by (simp add: future_callback_def)
qed

declare serve.simps [simp del]

lemma finished_world_inject [simp]: "finished_world st l = finished_world st' l' \<longleftrightarrow> st = st' \<and> l = l'"
  by (simp add: finished_world_def)

text \<open>How often a request has asked the database whether to try again.\<close>

fun is_on_error :: "call \<Rightarrow> bool" where
  "is_on_error (Fdb_on_error err) = True"
| "is_on_error _ = False"

definition retries :: "call list \<Rightarrow> nat" where
  "retries cs = length (filter is_on_error cs)"

lemma retries_simps [simp]:
  "retries [] = 0" "retries (c # cs) = (if is_on_error c then Suc (retries cs) else retries cs)"
  "retries (cs @ ds) = retries cs + retries ds"
  by (simp_all add: retries_def)

lemma retries_writes: "list_all is_write cs \<Longrightarrow> retries cs = 0"
proof (induction cs)
  case (Cons c cs)
  then show ?case by (cases c) simp_all
qed simp

text \<open>The calls since the last retry: the client library forgets the writes of an attempt that is retried.\<close>

definition attempt :: "call list \<Rightarrow> call list" where
  "attempt cs = rev (takeWhile (\<lambda>c. \<not> is_on_error c) (rev cs))"

lemma attempt_snoc: "attempt (cs @ [d]) = (if is_on_error d then [] else attempt cs @ [d])"
  by (simp add: attempt_def)

lemma attempt_append [simp]: "retries ds = 0 \<Longrightarrow> attempt (cs @ ds) = attempt cs @ ds"
proof (induction ds rule: rev_induct)
  case (snoc d ds)
  then show ?case using attempt_snoc [of "cs @ ds" d] by (simp split: if_splits)
qed simp

lemma attempt_retry [simp]: "attempt (cs @ Fdb_on_error err # ds) = attempt ds"
proof (induction ds rule: rev_induct)
  case Nil
  then show ?case using attempt_snoc [of cs "Fdb_on_error err"] by (simp add: attempt_def)
next
  case (snoc d ds)
  then show ?case using attempt_snoc [of "cs @ Fdb_on_error err # ds" d] attempt_snoc [of ds d] by simp
qed

lemma attempt_first [simp]: "attempt [] = []" "retries cs = 0 \<Longrightarrow> attempt cs = cs"
proof -
  show "attempt [] = []" by (simp add: attempt_def)
  then show "retries cs = 0 \<Longrightarrow> attempt cs = cs" using attempt_append [of cs "[]"] by simp
qed

lemma set_attempt: "set (attempt cs) \<subseteq> set cs"
  by (auto simp: attempt_def dest: set_takeWhileD)

text \<open>
  A request that ends as it is specified to: with a fault, or with these writes in its last attempt and this response;
  it has committed exactly when it has written.
\<close>

definition served_as :: "fdb_thread_state option \<Rightarrow> ('c, 'b) world result \<Rightarrow> (call list \<times> call) result \<Rightarrow> bool" where
  "served_as st res spec \<longleftrightarrow>
     (case spec of
        Inl f \<Rightarrow> res = Inl f
      | Inr (ws, response) \<Rightarrow> \<exists>l. res = Inr (finished_world st l) \<and> writes (attempt l) = ws \<and> filter is_response l = [response] \<and>
          (Fdb_commit \<in> set (attempt l) \<longleftrightarrow> ws \<noteq> []))"

section \<open>The replies of a store\<close>

text \<open>
  The last asynchronous call decides what the next reply is. A transaction sees the writes of its attempt. The scan of a key range
  is a parameter. Commits succeed.
\<close>

fun is_async :: "call \<Rightarrow> bool" where
  "is_async (Fdb_get k) = True"
| "is_async (Fdb_get_range a b) = True"
| "is_async Fdb_commit = True"
| "is_async (Fdb_on_error err) = True"
| "is_async _ = False"

type_synonym scan = "key_selector \<Rightarrow> key_selector \<Rightarrow> (bytes \<times> bytes) list"

definition answer :: "rows \<Rightarrow> scan \<Rightarrow> call \<Rightarrow> fdb_reply" where
  "answer st scan c =
     (case c of
        Fdb_get k \<Rightarrow> (case st k of None \<Rightarrow> ok_reply | Some v \<Rightarrow> row_reply v)
      | Fdb_get_range a b \<Rightarrow> ok_reply\<lparr>r_kvs := scan a b\<rparr>
      | _ \<Rightarrow> ok_reply)"

definition store_reply :: "rows \<Rightarrow> scan \<Rightarrow> call list \<Rightarrow> fdb_reply" where
  "store_reply st scan cs =
     (if filter is_async cs = [] then ok_reply
      else answer (apply_writes (writes (attempt cs)) st) scan (last (filter is_async cs)))"

lemma answer_error: "r_error (answer st scan c) = 0" "r_get_error (answer st scan c) = 0"
  by (simp_all add: answer_def ok_reply_def row_reply_def split: call.split option.split)

lemma store_reply_error [simp]: "r_error (store_reply st scan cs) = 0" "r_get_error (store_reply st scan cs) = 0"
  by (simp_all add: store_reply_def answer_error ok_reply_def)

text \<open>A row of a store, if it is there and long enough to be read as the structure of that size.\<close>

definition row_at :: "nat \<Rightarrow> rows \<Rightarrow> bytes \<Rightarrow> bytes option" where
  "row_at n st k = (case st k of None \<Rightarrow> None | Some v \<Rightarrow> if n \<le> length v then Some v else None)"

lemma value_of_ok_reply [simp]: "value_of_size n ok_reply = None"
  by (simp add: value_of_size_def ok_reply_def)

lemma value_of_store_reply [simp]:
  "writes (attempt cs) = [] \<Longrightarrow> filter is_async cs \<noteq> [] \<Longrightarrow> value_of_size n (store_reply st scan cs) =
     (case last (filter is_async cs) of Fdb_get k \<Rightarrow> row_at n st k | _ \<Rightarrow> None)"
  by (simp add: store_reply_def answer_def row_at_def value_of_size_def ok_reply_def row_reply_def split: option.split call.split)

text \<open>The rows after a served request: the writes of its last attempt, if that committed.\<close>

definition committed :: "rows \<Rightarrow> call list \<Rightarrow> rows" where
  "committed st cs = (if Fdb_commit \<in> set (attempt cs) then apply_writes (writes (attempt cs)) st else st)"

text \<open>A request against a store, from the entry point on.\<close>

definition serve_request ::
  "(('c, 'b) world \<Rightarrow> ('c, 'b) world result) \<Rightarrow> ('b \<Rightarrow> fdb_reply \<Rightarrow> ('c, 'b) world \<Rightarrow> ('c, 'b) world result) \<Rightarrow> nat \<Rightarrow>
   (call list \<Rightarrow> fdb_reply) \<Rightarrow> fdb_thread_state \<Rightarrow> 'c \<Rightarrow> ('c, 'b) world result" where
  "serve_request start run n reply st c = bindR (start (fresh_world st c)) (serve n run reply)"

text \<open>Transactions can be created and calls go through.\<close>

definition serving :: "env \<Rightarrow> fdb_thread_state \<Rightarrow> bool" where
  "serving e st \<longleftrightarrow> reliable e \<and> e_create e [Fdb_create_transaction] = 0 \<and> db st \<noteq> None"

lemma serving_sunny [simp]: "serving sunny_env sunny_state"
  by (simp add: serving_def)

abbreviation counted :: "fdb_thread_state \<Rightarrow> fdb_thread_state option" where
  "counted st \<equiv> Some (st\<lparr>active_transactions := active_transactions st + 1\<rparr>)"

text \<open>A request that was served with some number of callbacks ends as specified, when it does with enough of them.\<close>

lemma served_as_finished:
  assumes "served_as st' (serve_request start run m reply st c) spec"
    and "serve_request start run n reply st c = Inr w" and "finished w"
  shows "\<exists>ws response. spec = Inr (ws, response) \<and> writes (attempt (log w)) = ws \<and> filter is_response (log w) = [response] \<and>
    (Fdb_commit \<in> set (attempt (log w)) \<longleftrightarrow> ws \<noteq> [])"
proof -
  obtain w0 where w0: "start (fresh_world st c) = Inr w0" "serve n run reply w0 = Inr w"
    using assms(2) by (auto simp: serve_request_def bindR_eq_Inr_iff)
  have "serve (m + n) run reply w0 = Inr w"
    using serve_more [OF w0(2), of m] assms(3) by (simp add: finished_def add.commute)
  moreover have "serve (m + n) run reply w0 = serve m run reply w0" if "serve m run reply w0 = Inr (finished_world st' l)" for l
    using serve_more [OF that, of n] that by (simp add: finished_world_def)
  moreover have "serve (m + n) run reply w0 = Inl f" if "serve m run reply w0 = Inl f" for f
    using serve_fault_more [OF that] .
  ultimately show ?thesis
    using assms(1) w0(1) by (fastforce simp: served_as_def serve_request_def finished_world_def split: sum.splits)
qed

text \<open>
  A request up to its commit: one that writes gets to its commit callback, with a context of which \<open>P\<close> holds.
\<close>

definition attempted ::
  "fdb_thread_state option \<Rightarrow> nat \<Rightarrow> ('b \<Rightarrow> fdb_reply \<Rightarrow> ('c, 'b) world \<Rightarrow> ('c, 'b) world result) \<Rightarrow> (call list \<Rightarrow> fdb_reply) \<Rightarrow> 'b \<Rightarrow>
   ('c \<Rightarrow> call \<Rightarrow> bool) \<Rightarrow> nat \<Rightarrow> ('c, 'b) world result \<Rightarrow> (call list \<times> call) result \<Rightarrow> bool" where
  "attempted st n run reply b P k res spec \<longleftrightarrow>
     (case spec of
        Inl f \<Rightarrow> res = Inl f
      | Inr (ws, response) \<Rightarrow>
          if ws = [] then served_as st res spec
          else \<exists>c l. res = serve n run reply (waiting_world st c l b) \<and> P c response \<and> writes (attempt l) = ws \<and>
            Fdb_commit \<in> set (attempt l) \<and> filter is_async l \<noteq> [] \<and> last (filter is_async l) = Fdb_commit \<and>
            filter is_response l = [] \<and> retries l = k)"

text \<open>A commit callback that answers.\<close>

lemma attempted_served:
  assumes "attempted st (Suc n) run reply b P k res spec"
    and "\<And>c l response. P c response \<Longrightarrow> retries l = k \<Longrightarrow> is_response response \<and>
      (\<exists>c'. run b (reply l) (running_world st c l) = release (running_world st c' (l @ [response])))"
  shows "served_as st res spec"
proof (cases spec)
  case (Inr x)
  then obtain ws response where x: "spec = Inr (ws, response)" by (cases x) simp
  show ?thesis
  proof (cases "ws = []")
    case False
    then obtain c l where l: "res = serve (Suc n) run reply (waiting_world st c l b)" "P c response"
        "writes (attempt l) = ws" "Fdb_commit \<in> set (attempt l)" "filter is_response l = []" "retries l = k"
      using assms(1) x by (auto simp: attempted_def)
    obtain c' where r: "is_response response" "run b (reply l) (running_world st c l) = release (running_world st c' (l @ [response]))"
      using assms(2) [OF l(2,6)] by blast
    have w: "\<not> is_write response" "\<not> is_on_error response" using r(1) by (cases response; simp)+
    show ?thesis
      using serve_finish [where run = run and reply = reply, OF r(2), of n] l r(1) w False x by (simp add: served_as_def)
  qed (use assms(1) x in \<open>simp add: attempted_def\<close>)
qed (use assms(1) in \<open>simp add: attempted_def served_as_def\<close>)

section \<open>Chains that are tried again\<close>

text \<open>
  A store under contention: attempt \<open>j\<close> of a request sees the rows \<open>rows j\<close>, the commits of the first \<open>k\<close>
  attempts are answered with errors, and every retry is granted.
\<close>

definition contended_reply :: "(nat \<Rightarrow> rows) \<Rightarrow> scan \<Rightarrow> (nat \<Rightarrow> fdb_error) \<Rightarrow> nat \<Rightarrow> call list \<Rightarrow> fdb_reply" where
  "contended_reply rows scan errs k cs =
     (if retries cs < k \<and> Fdb_commit \<in> set (attempt cs) then ok_reply\<lparr>r_error := errs (retries cs)\<rparr>
      else store_reply (rows (retries cs)) scan cs)"

lemma contended_reply_none [simp]: "contended_reply (\<lambda>j. rows) scan errs 0 = store_reply rows scan"
  by (simp add: fun_eq_iff contended_reply_def)

text \<open>A specification by which the request writes, and therefore commits.\<close>

definition writing :: "(call list \<times> call) result \<Rightarrow> bool" where
  "writing spec \<longleftrightarrow> (case spec of Inl f \<Rightarrow> False | Inr (ws, response) \<Rightarrow> ws \<noteq> [])"

lemma attempted_writing:
  assumes "attempted st n run reply b P k res spec" and "writing spec"
  obtains c l response where "res = serve n run reply (waiting_world st c l b)" "P c response"
    "Fdb_commit \<in> set (attempt l)" "filter is_response l = []" "retries l = k"
  using assms by (auto simp: attempted_def writing_def split: sum.splits)

lemma attempted_not_writing:
  "attempted st n run reply b P k res spec \<Longrightarrow> \<not> writing spec \<Longrightarrow> served_as st res spec"
  by (auto simp: attempted_def writing_def served_as_def split: sum.splits if_splits)

text \<open>
  A chain of reads up to a commit, which with an error asks for a retry, which starts from the first read. A repeatable
  request asks for the same in every attempt.
\<close>

locale retried_chain =
  fixes run :: "'b \<Rightarrow> fdb_reply \<Rightarrow> ('c, 'b) world \<Rightarrow> ('c, 'b) world result" and rel :: bool
    and first commit retry :: 'b and first_key :: "'c \<Rightarrow> bytes" and reads :: "'c \<Rightarrow> nat"
    and admitted repeatable :: "'c \<Rightarrow> bool" and same :: "'c \<Rightarrow> 'c \<Rightarrow> bool" and reset :: "'c \<Rightarrow> 'c"
    and ok_response :: "'c \<Rightarrow> call" and spec :: "rows \<Rightarrow> 'c \<Rightarrow> i64 \<Rightarrow> (call list \<times> call) result"
  assumes attempt_reads: "rel \<Longrightarrow> admitted c \<Longrightarrow> writes (attempt l) = [] \<Longrightarrow> filter is_response l = [] \<Longrightarrow>
      Fdb_commit \<notin> set (attempt l) \<Longrightarrow> ds = [] \<or> ds = [Fdb_future_destroy] \<Longrightarrow>
      (\<And>l'. retries l' = retries l \<Longrightarrow> Fdb_commit \<notin> set (attempt l') \<Longrightarrow> reply l' = store_reply rows scan l') \<Longrightarrow>
      \<exists>now. attempted st n run reply commit (\<lambda>c' response. same c c' \<and> response = ok_response c') (retries l)
        (serve (n + reads c) run reply (waiting_world st c (l @ Fdb_get (first_key c) # ds) first)) (spec rows c now)"
    and ok_is_response: "is_response (ok_response c)"
    and commit_answers: "r_error r = 0 \<Longrightarrow>
      \<exists>c'. run commit r (running_world st c l) = release (running_world st c' (l @ [ok_response c]))"
    and commit_conflicts: "rel \<Longrightarrow> r_error r \<noteq> 0 \<Longrightarrow>
      run commit r (running_world st c l) = Inr (registered retry (running_world st c (l @ [Fdb_on_error (r_error r)])))"
    and retry_granted: "rel \<Longrightarrow> r_error r = 0 \<Longrightarrow> run retry r (running_world st c l) =
      Inr (registered first (running_world st (reset c) (l @ [Fdb_get (first_key (reset c))])))"
    and same_refl: "admitted c \<Longrightarrow> same c c" and same_reset: "same c c' \<Longrightarrow> same c (reset c')"
    and same_trans: "same c c' \<Longrightarrow> same c' c'' \<Longrightarrow> same c c''"
    and same_admitted: "admitted c \<Longrightarrow> same c c' \<Longrightarrow> admitted c' \<and> reads c' = reads c"
    and same_spec: "admitted c \<Longrightarrow> repeatable c \<Longrightarrow> same c c' \<Longrightarrow> spec rows c' now = spec rows c now"
    and writing_any_time: "writing (spec rows c now) \<Longrightarrow> writing (spec rows c now')"
begin

text \<open>An attempt whose commit succeeds.\<close>

lemma attempt_served:
  assumes "rel" and "admitted c" and "writes (attempt l) = []" and "filter is_response l = []"
    and "Fdb_commit \<notin> set (attempt l)" and "ds = [] \<or> ds = [Fdb_future_destroy]"
    and "\<And>l'. retries l' = retries l \<Longrightarrow> reply l' = store_reply rows scan l'"
  shows "\<exists>now. served_as st (serve (Suc (n + reads c)) run reply (waiting_world st c (l @ Fdb_get (first_key c) # ds) first))
    (spec rows c now)"
proof -
  from attempt_reads [where reply = reply and n = "Suc n", OF assms(1-6) assms(7)]
  obtain now where a: "attempted st (Suc n) run reply commit (\<lambda>c' response. same c c' \<and> response = ok_response c') (retries l)
      (serve (Suc n + reads c) run reply (waiting_world st c (l @ Fdb_get (first_key c) # ds) first)) (spec rows c now)"
    by blast
  have "served_as st (serve (Suc n + reads c) run reply (waiting_world st c (l @ Fdb_get (first_key c) # ds) first)) (spec rows c now)"
    using assms(7) commit_answers ok_is_response by (intro attempted_served [OF a]) simp
  then show ?thesis by auto
qed

text \<open>An attempt whose commit conflicts: it ends before the commit, or the next attempt starts.\<close>

lemma attempt_conflicts:
  assumes "rel" and "admitted c" and "writes (attempt l) = []" and "filter is_response l = []"
    and "Fdb_commit \<notin> set (attempt l)" and "ds = [] \<or> ds = [Fdb_future_destroy]"
    and "retries l < k" and "\<And>j. errs j \<noteq> 0"
  obtains (ends) now where "\<not> writing (spec (rows (retries l)) c now)"
      "served_as st (serve (n + 2 + reads c) run (contended_reply rows scan errs k)
        (waiting_world st c (l @ Fdb_get (first_key c) # ds) first)) (spec (rows (retries l)) c now)"
  | (again) c' l' where "same c c'" "serve (n + 2 + reads c) run (contended_reply rows scan errs k)
        (waiting_world st c (l @ Fdb_get (first_key c) # ds) first) =
      serve n run (contended_reply rows scan errs k)
        (waiting_world st c' (l' @ Fdb_get (first_key c') # [Fdb_future_destroy]) first)"
      "attempt l' = [Fdb_future_destroy]" "filter is_response l' = []" "retries l' = Suc (retries l)"
proof -
  let ?reply = "contended_reply rows scan errs k"
  have "?reply l' = store_reply (rows (retries l)) scan l'" if "retries l' = retries l" "Fdb_commit \<notin> set (attempt l')" for l'
    using that by (simp add: contended_reply_def)
  from attempt_reads [where reply = ?reply and n = "n + 2" and st = st, OF assms(1-6) this]
  obtain now where a: "attempted st (n + 2) run ?reply commit (\<lambda>c' response. same c c' \<and> response = ok_response c') (retries l)
      (serve (n + 2 + reads c) run ?reply (waiting_world st c (l @ Fdb_get (first_key c) # ds) first))
      (spec (rows (retries l)) c now)"
    by blast
  show ?thesis
  proof (cases "writing (spec (rows (retries l)) c now)")
    case False
    show ?thesis by (rule ends [OF False attempted_not_writing [OF a False]])
  next
    case True
    from attempted_writing [OF a True] obtain c1 l1 where
      1: "serve (n + 2 + reads c) run ?reply (waiting_world st c (l @ Fdb_get (first_key c) # ds) first) =
            serve (n + 2) run ?reply (waiting_world st c1 l1 commit)"
        "same c c1" "Fdb_commit \<in> set (attempt l1)" "filter is_response l1 = []" "retries l1 = retries l"
      by metis
    let ?l2 = "l1 @ [Fdb_on_error (errs (retries l)), Fdb_future_destroy]"
    have r1: "r_error (?reply l1) = errs (retries l)" using 1(3,5) assms(7) by (simp add: contended_reply_def)
    have r2: "r_error (?reply ?l2) = 0" by (simp add: contended_reply_def)
    have "run commit (?reply l1) (running_world st c1 l1) =
        Inr (registered retry (running_world st c1 (l1 @ [Fdb_on_error (errs (retries l))])))"
      using commit_conflicts [OF assms(1), of "?reply l1" st c1 l1] r1 assms(8) by simp
    note 2 = serve_continue [where run = run and reply = ?reply and n = "Suc n", OF this]
    note 3 = serve_continue [where run = run and reply = ?reply and n = n,
        OF retry_granted [where st = st and c = c1, OF assms(1) r2]]
    show ?thesis
      by (rule again [of "reset c1" ?l2]) (use 1 2 3 same_reset in \<open>simp_all add: eval_nat_numeral\<close>)
  qed
qed

text \<open>
  Some attempt at the same request ends it: the one after \<open>k\<close> conflicts, or an earlier one that has nothing to commit.
\<close>

lemma retried_outcome:
  assumes "rel" and "\<And>j. errs j \<noteq> 0" and "admitted c" and "retries l + d = k" and "writes (attempt l) = []"
    and "filter is_response l = []" and "Fdb_commit \<notin> set (attempt l)" and "ds = [] \<or> ds = [Fdb_future_destroy]"
  shows "\<exists>j c' now. same c c' \<and> (j = k \<or> j < k \<and> \<not> writing (spec (rows j) c' now)) \<and>
    served_as st (serve (d * (reads c + 2) + reads c + 1) run (contended_reply rows scan errs k)
      (waiting_world st c (l @ Fdb_get (first_key c) # ds) first)) (spec (rows j) c' now)"
  using assms(3-)
proof (induction d arbitrary: c l ds)
  case 0
  have "contended_reply rows scan errs k l' = store_reply (rows k) scan l'" if "retries l' = retries l" for l'
    using that 0 by (simp add: contended_reply_def)
  from attempt_served [where n = 0 and st = st, OF assms(1) "0.prems"(1,3-6) this]
  obtain now where "served_as st (serve (Suc (reads c)) run (contended_reply rows scan errs k)
      (waiting_world st c (l @ Fdb_get (first_key c) # ds) first)) (spec (rows k) c now)"
    by auto
  then show ?case using same_refl [OF "0.prems"(1)] by (intro exI [of _ k] exI [of _ c] exI [of _ now]) simp
next
  case (Suc d)
  let ?n = "d * (reads c + 2) + reads c + 1" and ?reply = "contended_reply rows scan errs k"
  have n: "Suc d * (reads c + 2) + reads c + 1 = ?n + 2 + reads c" by simp
  have j: "retries l < k" using Suc.prems(2) by simp
  show ?case
  proof (cases rule: attempt_conflicts [where rows = rows and errs = errs and scan = scan and st = st and n = ?n,
        OF assms(1) Suc.prems(1,3-6) j assms(2), case_names ends again])
    case (ends now)
    then show ?thesis
      unfolding n using same_refl [OF Suc.prems(1)] j
      by (intro exI [of _ "retries l"] exI [of _ c] exI [of _ now]) simp
  next
    case (again c' l')
    note c' = same_admitted [OF Suc.prems(1) again(1)]
    have "\<exists>j c'' now. same c' c'' \<and> (j = k \<or> j < k \<and> \<not> writing (spec (rows j) c'' now)) \<and>
      served_as st (serve (d * (reads c' + 2) + reads c' + 1) run ?reply
        (waiting_world st c' (l' @ Fdb_get (first_key c') # [Fdb_future_destroy]) first)) (spec (rows j) c'' now)"
      by (rule Suc.IH) (use c' again Suc.prems(2) in simp_all)
    then obtain i c'' now where i: "same c' c''" "i = k \<or> i < k \<and> \<not> writing (spec (rows i) c'' now)"
        "served_as st (serve ?n run ?reply (waiting_world st c' (l' @ Fdb_get (first_key c') # [Fdb_future_destroy]) first))
          (spec (rows i) c'' now)"
      using c' by auto
    show ?thesis
      unfolding n again(2) using i same_trans [OF again(1) i(1)]
      by (intro exI [of _ i] exI [of _ c''] exI [of _ now]) simp
  qed
qed

text \<open>From an entry point that has registered the first read.\<close>

lemma begun_served:
  assumes "rel" and "admitted c"
    and "start (fresh_world st c) = Inr (waiting_world st' c [Fdb_create_transaction, Fdb_get (first_key c)] first)"
  shows "\<exists>now. served_as st' (serve_request start run (reads c + 1) (store_reply rows scan) st c) (spec rows c now)"
  using attempt_served [where l = "[Fdb_create_transaction]" and ds = "[]" and n = 0 and reply = "store_reply rows scan"
      and st = st' and rows = rows and scan = scan, OF assms(1,2)] assms(3)
  by (simp add: serve_request_def)

lemma begun_retried_outcome:
  assumes "rel" and "\<And>j. errs j \<noteq> 0" and "admitted c"
    and "start (fresh_world st c) = Inr (waiting_world st' c [Fdb_create_transaction, Fdb_get (first_key c)] first)"
  shows "\<exists>j c' now. same c c' \<and> (j = k \<or> j < k \<and> \<not> writing (spec (rows j) c' now)) \<and>
    served_as st' (serve_request start run (k * (reads c + 2) + reads c + 1) (contended_reply rows scan errs k) st c)
      (spec (rows j) c' now)"
  using retried_outcome [where l = "[Fdb_create_transaction]" and ds = "[]" and d = k and k = k and st = st'
      and scan = scan and rows = rows and errs = errs, OF assms(1-3)] assms(4)
  by (simp add: serve_request_def)

text \<open>A repeatable request that would commit in each of the attempts ends as specified for the rows of the last one.\<close>

lemma begun_retried:
  assumes "rel" and "\<And>j. errs j \<noteq> 0" and "admitted c"
    and "start (fresh_world st c) = Inr (waiting_world st' c [Fdb_create_transaction, Fdb_get (first_key c)] first)"
    and "repeatable c" and "\<And>j. j < k \<Longrightarrow> writing (spec (rows j) c now)"
  shows "\<exists>now. served_as st' (serve_request start run (k * (reads c + 2) + reads c + 1) (contended_reply rows scan errs k) st c)
    (spec (rows k) c now)"
proof -
  from begun_retried_outcome [where k = k and rows = rows and scan = scan and errs = errs and start = start and c = c, OF assms(1-4)]
  obtain j c' now' where j: "same c c'" "j = k \<or> j < k \<and> \<not> writing (spec (rows j) c' now')"
      "served_as st' (serve_request start run (k * (reads c + 2) + reads c + 1) (contended_reply rows scan errs k) st c)
        (spec (rows j) c' now')"
    by blast
  have "writing (spec (rows j) c now')" if "j < k" using writing_any_time [OF assms(6) [OF that]] .
  then show ?thesis using j same_spec [OF assms(3,5) j(1)] by metis
qed

end

section \<open>Chains that come to an end\<close>

text \<open>The request has been answered and released, or one of the faults has happened.\<close>

definition answered :: "fault set \<Rightarrow> ('c, 'b) world result \<Rightarrow> bool" where
  "answered faults res \<longleftrightarrow> (\<exists>f \<in> faults. res = Inl f) \<or> (\<exists>w. res = Inr w \<and> finished w)"

text \<open>When the replies are no errors after \<open>k\<close> retries, this many callbacks are still to come at most.\<close>

definition callbacks_left :: "('b \<Rightarrow> 'c \<Rightarrow> nat) \<Rightarrow> ('c \<Rightarrow> nat) \<Rightarrow> nat \<Rightarrow> call list \<Rightarrow> 'b \<Rightarrow> 'c \<Rightarrow> nat" where
  "callbacks_left rank restart k l b c = (k - retries l) * restart c + rank b c"

text \<open>
  A callback leads to one that is nearer to the end, or it has been given an error and asks for a retry, which starts
  below \<open>restart\<close>.
\<close>

locale ranked_chain = callback_chain run ok rel faults
  for run :: "'b \<Rightarrow> fdb_reply \<Rightarrow> ('c, 'b) world \<Rightarrow> ('c, 'b) world result" and ok and rel and faults +
  fixes rank :: "'b \<Rightarrow> 'c \<Rightarrow> nat" and restart :: "'c \<Rightarrow> nat"
  assumes run_decreases: "alive ok b w \<Longrightarrow> ctx w = Some c \<Longrightarrow> run b r w = Inr w' \<Longrightarrow>
      pending w' = pending w @ [b'] \<Longrightarrow> ctx w' = Some c' \<Longrightarrow>
      restart c' = restart c \<and> (rank b' c' < rank b c \<and> retries (log w') = retries (log w) \<or>
        r_error r \<noteq> 0 \<and> retries (log w') = Suc (retries (log w)) \<and> rank b' c' < restart c)"
begin

lemma fire_decreases:
  assumes "waiting ok w" and "pending w = [b]" and "ctx w = Some c"
    and "future_callback run b r (w\<lparr>pending := []\<rparr>) = Inr w'" and "pending w' = [b']" and "ctx w' = Some c'"
  shows "restart c' = restart c \<and> (rank b' c' < rank b c \<and> retries (log w') = retries (log w) \<or>
    r_error r \<noteq> 0 \<and> retries (log w') = Suc (retries (log w)) \<and> rank b' c' < restart c)"
proof -
  obtain v where v: "run b r (w\<lparr>pending := []\<rparr>) = Inr v" "pending v = pending w'" "ctx v = ctx w'"
      "retries (log v) = retries (log w')"
    using assms(4) by (auto simp: future_callback_def bindR_eq_Inr_iff guardR_eq_Inr_iff emit_def)
  have "alive ok b (w\<lparr>pending := []\<rparr>)" using assms(1,2) by (auto simp: waiting_def alive_def)
  from run_decreases [OF this _ v(1)] show ?thesis using v assms by simp
qed

lemma callbacks_left_decreases:
  assumes "waiting ok w" and "pending w = [b]" and "ctx w = Some c"
    and "future_callback run b r (w\<lparr>pending := []\<rparr>) = Inr w'" and "pending w' = [b']" and "ctx w' = Some c'"
    and "k \<le> retries (log w) \<Longrightarrow> r_error r = 0"
  shows "callbacks_left rank restart k (log w') b' c' < callbacks_left rank restart k (log w) b c"
proof -
  note d = fire_decreases [OF assms(1-6)]
  show ?thesis
  proof (cases "rank b' c' < rank b c \<and> retries (log w') = retries (log w)")
    case True
    then show ?thesis using d by (simp add: callbacks_left_def)
  next
    case False
    then have "retries (log w') = Suc (retries (log w))" "rank b' c' < restart c" "retries (log w) < k"
      using d assms(7) by (auto simp: not_le [symmetric])
    then obtain m where "k - retries (log w) = Suc m" "k - retries (log w') = m"
      by (cases "k - retries (log w)") auto
    then show ?thesis using d \<open>rank b' c' < restart c\<close> by (simp add: callbacks_left_def)
  qed
qed

lemma serve_ends:
  assumes "rel" and "\<And>l. k \<le> retries l \<Longrightarrow> r_error (reply l) = 0"
    and "waiting ok w" and "pending w = [b]" and "ctx w = Some c" and "callbacks_left rank restart k (log w) b c < n"
  shows "answered faults (serve n run reply w)"
  using assms(3-)
proof (induction n arbitrary: w b c)
  case (Suc n)
  let ?r = "reply (log w)"
  from fire_outcome [OF Suc.prems(1), of "[]" b "[]" ?r] Suc.prems(2) assms(1)
  consider f where "f \<in> faults" "future_callback run b ?r (w\<lparr>pending := []\<rparr>) = Inl f"
    | w' where "future_callback run b ?r (w\<lparr>pending := []\<rparr>) = Inr w'" "finished w'"
    | w' where "future_callback run b ?r (w\<lparr>pending := []\<rparr>) = Inr w'" "waiting ok w'"
    by auto
  then show ?case
  proof cases
    case 1
    then show ?thesis using Suc.prems(2) by (auto simp: serve.simps answered_def)
  next
    case 2
    then show ?thesis using Suc.prems(2) by (auto simp: serve.simps serve_done finished_def answered_def)
  next
    case 3
    then obtain b' c' where b': "pending w' = [b']" "ctx w' = Some c'" by (auto simp: waiting_def alive_def)
    then have "callbacks_left rank restart k (log w') b' c' < callbacks_left rank restart k (log w) b c"
      using callbacks_left_decreases [OF Suc.prems(1-3) 3(1), of b' c' k] assms(2) by blast
    then show ?thesis
      using Suc.IH [OF 3(2) b'] Suc.prems(2,4) 3(1) by (simp add: serve.simps)
  qed
qed simp

text \<open>From an entry point that has registered its first callback.\<close>

lemma begun_ends:
  assumes "rel" and "\<And>l. k \<le> retries l \<Longrightarrow> r_error (reply l) = 0"
    and "start (fresh_world st c) = Inr (waiting_world st' c l b)" and "ok b c" and "responses l = 0" and "retries l = 0"
    and "k * restart c + rank b c < n"
  shows "answered faults (serve_request start run n reply st c)"
proof -
  have "waiting ok (waiting_world st' c l b)" "pending (waiting_world st' c l b) = [b]" "ctx (waiting_world st' c l b) = Some c"
      "callbacks_left rank restart k (log (waiting_world st' c l b)) b c < n"
    using assms(4-7) by (simp_all add: waiting_def alive_def waiting_world_def callbacks_left_def)
  from serve_ends [where reply = reply, OF assms(1,2) this] show ?thesis
    using assms(3) by (simp add: serve_request_def)
qed

end

text \<open>Rules for the law of \<open>ranked_chain\<close>, one for each way a callback body ends.\<close>

definition ranked ::
  "('b \<Rightarrow> 'c \<Rightarrow> nat) \<Rightarrow> ('c \<Rightarrow> nat) \<Rightarrow> fdb_reply \<Rightarrow> 'c \<Rightarrow> nat \<Rightarrow> ('c, 'b) world \<Rightarrow> ('c, 'b) world result \<Rightarrow> bool" where
  "ranked rank restart r c n w res \<longleftrightarrow>
     (\<forall>w' b' c'. res = Inr w' \<longrightarrow> pending w' = pending w @ [b'] \<longrightarrow> ctx w' = Some c' \<longrightarrow>
        restart c' = restart c \<and> (rank b' c' < n \<and> retries (log w') = retries (log w) \<or>
          r_error r \<noteq> 0 \<and> retries (log w') = Suc (retries (log w)) \<and> rank b' c' < restart c))"

named_theorems ranked_intros \<open>ranks of what a callback body registers\<close>

lemma ranked_async [ranked_intros]:
  assumes "pending w' = pending w" and "ctx w' = Some c'" and "retries (log w') = retries (log w)"
    and "restart c' = restart c" and "rank cb c' < n"
  shows "ranked rank restart r c n w (ignore_rc (fdb_async_get e key cb w'))"
    and "ranked rank restart r c n w (ignore_rc (fdb_async_get_range e kb ke cb w'))"
    and "ranked rank restart r c n w (ignore_rc (fdb_async_commit e cb w'))"
  unfolding ranked_def fdb_async_get_def fdb_async_get_range_def fdb_async_commit_def
    async_call_def submit_future_def ignore_rc_def
  using assms by (auto simp: Let_def guardR_def split: if_splits)

lemma ranked_retry [ranked_intros]:
  assumes "r_error r \<noteq> 0" and "pending w' = pending w" and "ctx w' = Some c'" and "retries (log w') = retries (log w)"
    and "restart c' = restart c" and "rank cb c' < restart c"
  shows "ranked rank restart r c n w (ignore_rc (fdb_handle_error e err cb w'))"
  unfolding ranked_def fdb_handle_error_def async_call_def submit_future_def ignore_rc_def
  using assms by (auto simp: Let_def guardR_def split: if_splits)

lemma ranked_release [ranked_intros]:
  "pending w' = pending w \<Longrightarrow> ranked rank restart r c n w (release w')"
  by (auto simp: ranked_def release_def guardR_eq_Inr_iff)

lemma ranked_bind_schk [ranked_intros]:
  "(\<And>v. schk i = Inr v \<Longrightarrow> ranked rank restart r c n w (f v)) \<Longrightarrow> ranked rank restart r c n w (bindR (schk i) f)"
  by (auto simp: ranked_def bindR_eq_Inr_iff)

lemma ranked_Inl [ranked_intros, simp]: "ranked rank restart r c n w (Inl f)"
  by (simp add: ranked_def)

section \<open>Chains that write well-shaped rows\<close>

text \<open>The size of the rows of each table; a marker of an undelivered order is one byte, a counter eight.\<close>

fun row_size :: "tkey \<Rightarrow> nat" where
  "row_size (KWarehouse w) = sizeof_warehouse_val"
| "row_size (KDistrict w d) = sizeof_district_val"
| "row_size (KCustomer w d c) = sizeof_customer_val"
| "row_size (KHistory w cw cd c now) = sizeof_history_val"
| "row_size (KItem i) = sizeof_item_val"
| "row_size (KStock w i) = sizeof_stock_val"
| "row_size (KOorder w d n) = sizeof_oorder_val"
| "row_size (KNewOrder w d n) = 1"
| "row_size (KOrderLine w d n l) = sizeof_order_line_val"
| "row_size (KNextOId w d) = 8"

text \<open>A row of one of the given TPC-C tables or of the World table, with a value of its size.\<close>

inductive row_shape :: "(tkey \<Rightarrow> bool) \<Rightarrow> bytes \<Rightarrow> bytes \<Rightarrow> bool" for T where
  tpcc_row: "T t \<Longrightarrow> length v = row_size t \<Longrightarrow> row_shape T (key_bytes t) v"
| world_row: "length v = 4 \<Longrightarrow> row_shape T (c_str ''tfb/w/'' @ be_bytes 4 (i :: u32)) v"

inductive_cases row_shapeE: "row_shape T k v"

abbreviation any_table :: "tkey \<Rightarrow> bool" where "any_table \<equiv> \<lambda>_. True"

lemma row_shape_any: "row_shape T k v \<Longrightarrow> row_shape any_table k v"
  by (auto elim!: row_shapeE intro: row_shape.intros)

definition well_shaped :: "rows \<Rightarrow> bool" where
  "well_shaped st \<longleftrightarrow> (\<forall>k v. st k = Some v \<longrightarrow> row_shape any_table k v)"

lemma key_not_world: "key_bytes t \<noteq> c_str ''tfb/w/'' @ x"
  by (cases t) (simp_all add: key_bytes.simps subspace_defs c_str_def)

lemma well_shaped_size: "well_shaped st \<Longrightarrow> st (key_bytes t) = Some v \<Longrightarrow> length v = row_size t"
proof -
  assume "well_shaped st" "st (key_bytes t) = Some v"
  then have "row_shape any_table (key_bytes t) v" by (simp add: well_shaped_def)
  then show "length v = row_size t"
  proof (rule row_shapeE)
    fix t' assume "key_bytes t = key_bytes t'" "length v = row_size t'"
    then show ?thesis using key_bytes_inj [of t t'] by simp
  qed (simp add: key_not_world)
qed

text \<open>What a request has written so far.\<close>

definition shaped :: "(tkey \<Rightarrow> bool) \<Rightarrow> ('c, 'b) world \<Rightarrow> bool" where
  "shaped T w \<longleftrightarrow> (\<forall>k v. Fdb_set k v \<in> set (log w) \<longrightarrow> row_shape T k v)"

lemma well_shaped_writes:
  assumes "well_shaped st" and "\<And>k v. Fdb_set k v \<in> set cs \<Longrightarrow> row_shape any_table k v"
  shows "well_shaped (apply_writes cs st)"
  using assms
proof (induction cs arbitrary: st)
  case (Cons c cs)
  have "well_shaped (apply_write c st)"
    using Cons.prems by (cases c) (auto simp: apply_write_def well_shaped_def)
  then show ?case using Cons by simp
qed simp

lemma set_writes: "Fdb_set k v \<in> set (writes cs) \<longleftrightarrow> Fdb_set k v \<in> set cs"
  by (simp add: writes_def)

lemma committed_shaped: "well_shaped st \<Longrightarrow> shaped T w \<Longrightarrow> well_shaped (committed st (log w))"
  using row_shape_any [of T] set_attempt [of "log w"] unfolding committed_def shaped_def
  by (auto intro!: well_shaped_writes simp: set_writes subset_iff)

locale shaping_chain =
  fixes run :: "'b \<Rightarrow> fdb_reply \<Rightarrow> ('c, 'b) world \<Rightarrow> ('c, 'b) world result" and T :: "tkey \<Rightarrow> bool"
  assumes run_shaped: "run b r w = Inr w' \<Longrightarrow> shaped T w \<Longrightarrow> shaped T w'"
begin

lemma reachable_shaped:
  assumes "(chain_step run)\<^sup>*\<^sup>* w w'" and "shaped T w"
  shows "shaped T w'"
  using assms
proof (induction rule: rtranclp_induct)
  case (step v w')
  then obtain xs b ys r where "future_callback run b r (v\<lparr>pending := xs @ ys\<rparr>) = Inr w'" by blast
  then obtain u where u: "run b r (v\<lparr>pending := xs @ ys\<rparr>) = Inr u" "log w' = log u @ [Fdb_future_destroy]"
    by (auto simp: future_callback_def bindR_eq_Inr_iff guardR_eq_Inr_iff emit_def)
  have "shaped T (v\<lparr>pending := xs @ ys\<rparr>)" using step.IH [OF step.prems] by (simp add: shaped_def)
  from run_shaped [OF u(1) this] show ?case using u(2) by (auto simp: shaped_def)
qed

lemma served_shaped:
  assumes "serve_request start run n reply st c = Inr w" and "\<And>v. start (fresh_world st c) = Inr v \<Longrightarrow> shaped T v"
  shows "shaped T w"
proof -
  obtain v where "start (fresh_world st c) = Inr v" "serve n run reply v = Inr w"
    using assms(1) by (auto simp: serve_request_def bindR_eq_Inr_iff)
  then show ?thesis using reachable_shaped [OF serve_reaches] assms(2) by blast
qed

end

text \<open>Rows that no table of the chain has are left alone.\<close>

lemma committed_other:
  assumes "shaped T w" and "\<not> T t"
  shows "committed st (log w) (key_bytes t) = st (key_bytes t)"
proof -
  have "Fdb_set (key_bytes t) v \<notin> set (writes (attempt (log w)))" for v
  proof
    assume "Fdb_set (key_bytes t) v \<in> set (writes (attempt (log w)))"
    then have "row_shape T (key_bytes t) v" using assms(1) set_attempt [of "log w"] by (auto simp: shaped_def set_writes)
    then show False
    proof (rule row_shapeE)
      fix t' assume "key_bytes t = key_bytes t'" "T t'"
      then show False using key_bytes_inj [of t t'] assms(2) by simp
    qed (simp add: key_not_world)
  qed
  then show ?thesis unfolding committed_def by (simp add: apply_writes_other)
qed

text \<open>Rules for the law, one for each construct of a callback body.\<close>

definition allR :: "('a \<Rightarrow> bool) \<Rightarrow> 'a result \<Rightarrow> bool" where
  "allR P m \<longleftrightarrow> (\<forall>x. m = Inr x \<longrightarrow> P x)"

named_theorems shaped_intros \<open>constructs that keep the rows well-shaped\<close>

lemma allR_basic [shaped_intros]:
  "allR P (Inl f)" "P x \<Longrightarrow> allR P (Inr x)" "allR P m \<Longrightarrow> allR P (guardR b f m)"
  "(\<And>c. ctx w = Some c \<Longrightarrow> allR P (g c)) \<Longrightarrow> allR P (with_ctx w g)"
  by (simp_all add: allR_def guardR_def with_ctx_def split: option.split)

lemma allR_bind: "allR Q m \<Longrightarrow> (\<And>x. Q x \<Longrightarrow> allR P (f x)) \<Longrightarrow> allR P (bindR m f)"
  by (auto simp: allR_def bindR_eq_Inr_iff)

lemma allR_any: "(\<And>x. allR P (f x)) \<Longrightarrow> allR P (bindR m f)"
  by (auto simp: allR_def bindR_eq_Inr_iff)

text \<open>A part that computes a value without touching the request, and one that does.\<close>

lemma allR_value [shaped_intros]:
  "(\<And>x. allR P (f x)) \<Longrightarrow> allR P (bindR (schk i) f)"
  "(\<And>x. allR P (f x)) \<Longrightarrow> allR P (bindR (if t then schk i else Inr y) f)"
  "(\<And>x. allR P (g x)) \<Longrightarrow> allR P (bindR (array_get xs k) g)"
  "(\<And>x. allR P (h x)) \<Longrightarrow> allR P (bindR (array_set xs k y') h)"
  by (rule allR_any, assumption)+

lemma allR_shaped_then [shaped_intros]: "allR (shaped T) m \<Longrightarrow> (\<And>w. shaped T w \<Longrightarrow> allR (shaped T) (f w)) \<Longrightarrow> allR (shaped T) (bindR m f)"
  by (rule allR_bind)

lemma shaped_simps [simp]:
  "shaped T (w\<lparr>ctx := c\<rparr>) = shaped T w"
  "shaped T (emit (Fdb_set k v) w) \<longleftrightarrow> row_shape T k v \<and> shaped T w"
  "\<not> is_write d \<Longrightarrow> shaped T (emit d w) = shaped T w"
  by (auto simp: shaped_def)

lemma shaped_set [shaped_intros]: "row_shape T k v \<Longrightarrow> shaped T w \<Longrightarrow> allR (shaped T) (fdb_sync_set k v w)"
  by (simp add: fdb_sync_set_def allR_def guardR_def)

lemma shaped_async [shaped_intros]:
  assumes "shaped T w"
  shows "allR (shaped T) (ignore_rc (fdb_async_get e key cb w))"
    and "allR (shaped T) (ignore_rc (fdb_async_get_range e kb ke cb w))"
    and "allR (shaped T) (ignore_rc (fdb_async_commit e cb w))"
    and "allR (shaped T) (ignore_rc (fdb_handle_error e err cb w))"
  unfolding allR_def fdb_async_get_def fdb_async_get_range_def fdb_async_commit_def fdb_handle_error_def
    async_call_def submit_future_def ignore_rc_def
  using assms by (auto simp: Let_def guardR_def shaped_def split: if_splits)

lemma shaped_release [shaped_intros]: "shaped T w \<Longrightarrow> allR (shaped T) (release w)"
  by (auto simp: allR_def release_def guardR_eq_Inr_iff shaped_def)

lemma shaped_loop [shaped_intros]:
  assumes "\<And>i w. shaped T w \<Longrightarrow> allR (shaped T) (f i w)" and "shaped T w"
  shows "allR (shaped T) (forR is f w)"
  using assms(2)
proof (induction "is" arbitrary: w)
  case (Cons i "is")
  then show ?case using assms(1) [OF Cons.prems, of i] by (auto simp: allR_def bindR_eq_Inr_iff)
qed (simp add: allR_def)

lemma shaped_begin:
  assumes "shaped T w" and "\<And>w. shaped T w \<Longrightarrow> allR (shaped T) (first w)"
  shows "allR (shaped T) (begin_request msg first e w)"
proof -
  have "allR (\<lambda>(rc, w). shaped T w) (fdb_create_transaction e w)"
    using assms(1) by (auto simp: allR_def fdb_create_transaction_def Let_def guardR_def shaped_def split: option.splits if_splits)
  then show ?thesis
    unfolding begin_request_def by (rule allR_bind) (auto simp: allR_basic assms(2))
qed

end
