(* ===== verification/New_Order.thy ===== *)
theory New_Order
  imports Served_Requests
begin

text \<open>
  The NewOrder transaction of \<open>src/handlers/tpcc_new_order.h\<close> and \<open>src/handlers/tpcc_new_order.c\<close>:
  the context, the five callbacks, the entry point. \<open>no_run\<close> dispatches a callback name to its
  body; the chain is an instance of \<open>callback_chain\<close>.
\<close>

section \<open>Context\<close>

definition MIN_ORDER_LINES :: u32 where "MIN_ORDER_LINES = 5"
definition MAX_ORDER_LINES :: u32 where "MAX_ORDER_LINES = 15"

record new_order_ctx =
  no_seed :: u32
  no_w_id :: u32
  no_d_id :: u32
  no_c_id :: u32
  no_ol_cnt :: u8
  no_ol_supply_w :: "u8 list"
  no_ol_i_id :: "u32 list"
  no_ol_quantity :: "u8 list"
  no_all_local :: bool
  no_w_tax :: i32
  no_d_tax :: i32
  no_d_next_o_id :: i32
  no_c_discount :: i32
  no_s_quantity :: "i32 list"
  no_s_amount :: "i32 list"
  no_current_ol :: u8
  no_committed :: bool

text \<open>The context as \<open>calloc\<close> returns it.\<close>

definition zero_new_order_ctx :: new_order_ctx where
  "zero_new_order_ctx = \<lparr>no_seed = 0, no_w_id = 0, no_d_id = 0, no_c_id = 0, no_ol_cnt = 0,
     no_ol_supply_w = replicate 15 0, no_ol_i_id = replicate 15 0, no_ol_quantity = replicate 15 0,
     no_all_local = False, no_w_tax = 0, no_d_tax = 0, no_d_next_o_id = 0, no_c_discount = 0,
     no_s_quantity = replicate 15 0, no_s_amount = replicate 15 0, no_current_ol = 0, no_committed = False\<rparr>"

datatype no_cb =
    No_on_district_read
  | No_on_customer_read
  | No_on_stock_read
  | No_on_commit
  | No_on_error_retry

type_synonym no_world = "(new_order_ctx, no_cb) world"

section \<open>Callbacks\<close>

definition finish_new_order :: "i32 \<Rightarrow> string \<Rightarrow> no_world \<Rightarrow> no_world result" where
  "finish_new_order status msg w = with_ctx w (\<lambda>c.
     release (emit (if status = 200 then H2o_send_inline (Raw (c_str msg))
                    else H2o_send_error_generic status ''Error'' msg) w))"

definition no_on_district_read :: "env \<Rightarrow> fdb_reply \<Rightarrow> no_world \<Rightarrow> no_world result" where
  "no_on_district_read e future w = with_ctx w (\<lambda>c.
     if r_error future \<noteq> 0
     then ignore_rc (fdb_handle_error e (r_error future) No_on_error_retry w)
     else case value_of_size sizeof_district_val future of
            None \<Rightarrow> finish_new_order 500 ''district not found'' w
          | Some val \<Rightarrow>
              let dv = cast_district (e_byte_order e) val;
                  c = c\<lparr>no_d_tax := d_tax dv, no_d_next_o_id := d_next_o_id dv\<rparr>
              in bindR (key64 (\<lambda>b. kv_customer_key b (no_w_id c) (no_d_id c) (no_c_id c))) (\<lambda>ckey.
                   ignore_rc (fdb_async_get e ckey No_on_customer_read (w\<lparr>ctx := Some c\<rparr>))))"

text \<open>The bodies of the two write loops of \<open>start_stock_reads\<close>.\<close>

definition write_order_line :: "env \<Rightarrow> new_order_ctx \<Rightarrow> i32 \<Rightarrow> nat \<Rightarrow> no_world \<Rightarrow> no_world result" where
  "write_order_line e c o_id i w =
     bindR (key64 (\<lambda>b. kv_order_line_key b (no_w_id c) (no_d_id c) o_id (of_nat i + 1))) (\<lambda>olkey.
     bindR (array_get (no_ol_i_id c) i) (\<lambda>i_id.
     bindR (array_get (no_ol_supply_w c) i) (\<lambda>supply_w.
     bindR (array_get (no_ol_quantity c) i) (\<lambda>quantity.
     bindR (array_get (no_s_amount c) i) (\<lambda>amount.
       fdb_sync_set olkey
         (order_line_bytes (e_byte_order e)
           \<lparr>ol_i_id = i_id, ol_supply_w_id = ucast supply_w, ol_delivery_d = 0,
            ol_quantity = ucast quantity, ol_amount = amount, ol_dist_info = replicate 24 0\<rparr>) w)))))"

definition write_stock :: "env \<Rightarrow> new_order_ctx \<Rightarrow> nat \<Rightarrow> no_world \<Rightarrow> no_world result" where
  "write_stock e c i w =
     bindR (array_get (no_ol_supply_w c) i) (\<lambda>supply_w.
     bindR (array_get (no_ol_i_id c) i) (\<lambda>i_id.
     bindR (key64 (\<lambda>b. kv_stock_key b (ucast supply_w) i_id)) (\<lambda>skey.
     bindR (array_get (no_s_quantity c) i) (\<lambda>quantity.
     bindR (array_get (no_ol_quantity c) i) (\<lambda>ol_qty.
       fdb_sync_set skey
         (stock_bytes (e_byte_order e)
           (zero_stock\<lparr>s_quantity := quantity, s_order_cnt := 1, s_ytd := ucast ol_qty\<rparr>)) w)))))"

definition start_stock_reads :: "env \<Rightarrow> no_world \<Rightarrow> no_world result" where
  "start_stock_reads e w = with_ctx w (\<lambda>c.
     if no_current_ol c \<ge> no_ol_cnt c
     then
       let o_id = no_d_next_o_id c; now = e_time e (log w)
       in bindR (key64 (\<lambda>b. kv_oorder_key b (no_w_id c) (no_d_id c) o_id)) (\<lambda>okey.
          bindR (fdb_sync_set okey (oorder_bytes (e_byte_order e)
            \<lparr>o_c_id = no_c_id c, o_carrier_id = - 1, o_ol_cnt = ucast (no_ol_cnt c),
             o_all_local = (if no_all_local c then 1 else 0), o_entry_d = now\<rparr>) w) (\<lambda>w.
          bindR (key64 (\<lambda>b. kv_new_order_key b (no_w_id c) (no_d_id c) o_id)) (\<lambda>nokey.
          bindR (fdb_sync_set nokey [0] w) (\<lambda>w.
          bindR (forR [0..<unat (no_ol_cnt c)] (write_order_line e c o_id) w) (\<lambda>w.
          bindR (key64 (\<lambda>b. kv_next_o_id_key b (no_w_id c) (no_d_id c))) (\<lambda>nid_key.
          bindR (schk (sint o_id + 1)) (\<lambda>next.
          bindR (kv_encode_next_o_id (replicate 8 0) next) (\<lambda>nid_buf.
          bindR (fdb_sync_set nid_key nid_buf w) (\<lambda>w.
          bindR (forR [0..<unat (no_ol_cnt c)] (write_stock e c) w) (\<lambda>w.
            ignore_rc (fdb_async_commit e No_on_commit w)))))))))))
     else
       bindR (array_get (no_ol_supply_w c) (unat (no_current_ol c))) (\<lambda>supply_w.
       bindR (array_get (no_ol_i_id c) (unat (no_current_ol c))) (\<lambda>i_id.
       bindR (key64 (\<lambda>b. kv_stock_key b (ucast supply_w) i_id)) (\<lambda>skey.
         ignore_rc (fdb_async_get e skey No_on_stock_read w)))))"

definition no_on_customer_read :: "env \<Rightarrow> fdb_reply \<Rightarrow> no_world \<Rightarrow> no_world result" where
  "no_on_customer_read e future w = with_ctx w (\<lambda>c.
     if r_error future \<noteq> 0
     then ignore_rc (fdb_handle_error e (r_error future) No_on_error_retry w)
     else case value_of_size sizeof_customer_val future of
            None \<Rightarrow> finish_new_order 500 ''customer not found'' w
          | Some val \<Rightarrow>
              let cv = cast_customer (e_byte_order e) val;
                  c = c\<lparr>no_c_discount := c_discount cv, no_current_ol := 0\<rparr>
              in start_stock_reads e (w\<lparr>ctx := Some c\<rparr>))"

definition no_on_stock_read :: "env \<Rightarrow> fdb_reply \<Rightarrow> no_world \<Rightarrow> no_world result" where
  "no_on_stock_read e future w = with_ctx w (\<lambda>c.
     if r_error future \<noteq> 0
     then ignore_rc (fdb_handle_error e (r_error future) No_on_error_retry w)
     else case value_of_size sizeof_stock_val future of
            None \<Rightarrow> finish_new_order 500 ''stock not found'' w
          | Some val \<Rightarrow>
              let sv = cast_stock (e_byte_order e) val; idx = unat (no_current_ol c)
              in bindR (array_get (no_ol_quantity c) idx) (\<lambda>qty.
                 bindR (schk (sint (s_quantity sv) - uint qty)) (\<lambda>new_qty.
                 bindR (if sint (new_qty :: i32) < 10 then schk (sint new_qty + 91) else Inr new_qty) (\<lambda>new_qty.
                 bindR (array_set (no_s_quantity c) idx new_qty) (\<lambda>quantities.
                 bindR (schk (uint qty * 100)) (\<lambda>amount.
                 bindR (array_set (no_s_amount c) idx amount) (\<lambda>amounts.
                   let c = c\<lparr>no_s_quantity := quantities, no_s_amount := amounts,
                             no_current_ol := no_current_ol c + 1\<rparr>
                   in start_stock_reads e (w\<lparr>ctx := Some c\<rparr>))))))))"

definition no_on_commit :: "env \<Rightarrow> fdb_reply \<Rightarrow> no_world \<Rightarrow> no_world result" where
  "no_on_commit e future w = with_ctx w (\<lambda>c.
     if r_error future \<noteq> 0
     then ignore_rc (fdb_handle_error e (r_error future) No_on_error_retry w)
     else
       let c = c\<lparr>no_committed := True\<rparr>; w = w\<lparr>ctx := Some c\<rparr>
       in release (emit (H2o_send_inline (Yajl
            [Map_open, Jstring (c_str ''status''), Jstring (c_str ''ok''), Jstring (c_str ''o_id''),
             Jinteger (sint (no_d_next_o_id c)), Map_close])) w))"

definition no_on_error_retry :: "env \<Rightarrow> fdb_reply \<Rightarrow> no_world \<Rightarrow> no_world result" where
  "no_on_error_retry e future w = with_ctx w (\<lambda>c.
     if r_error future \<noteq> 0
     then finish_new_order 503 ''transaction retry exhausted'' w
     else
       let c = c\<lparr>no_current_ol := 0\<rparr>
       in bindR (key64 (\<lambda>b. kv_district_key b (no_w_id c) (no_d_id c))) (\<lambda>dkey.
            ignore_rc (fdb_async_get e dkey No_on_district_read (w\<lparr>ctx := Some c\<rparr>))))"

fun no_run :: "env \<Rightarrow> no_cb \<Rightarrow> fdb_reply \<Rightarrow> no_world \<Rightarrow> no_world result" where
  "no_run e No_on_district_read r w = no_on_district_read e r w"
| "no_run e No_on_customer_read r w = no_on_customer_read e r w"
| "no_run e No_on_stock_read r w = no_on_stock_read e r w"
| "no_run e No_on_commit r w = no_on_commit e r w"
| "no_run e No_on_error_retry r w = no_on_error_retry e r w"

section \<open>Entry point\<close>

text \<open>One pass of the loop that draws an order line; the state is the context and the seed.\<close>

definition draw_order_line :: "rng \<Rightarrow> nat \<Rightarrow> new_order_ctx \<times> u32 \<Rightarrow> (new_order_ctx \<times> u32) result" where
  "draw_order_line rand_r i = (\<lambda>(c, seed).
     bindR (nurand_item rand_r seed) (\<lambda>(item, seed).
     bindR (array_set (no_ol_i_id c) i item) (\<lambda>items.
     bindR (get_random_number rand_r 99 seed) (\<lambda>(r, seed).
     bindR (if r = 0
            then bindR (get_random_number rand_r 0 seed) (\<lambda>(r, seed).
                 let sw = ucast (1 + r) :: u8
                 in Inr (sw, if ucast sw \<noteq> no_w_id c then False else no_all_local c, seed))
            else Inr (ucast (no_w_id c), no_all_local c, seed)) (\<lambda>(supply_w, all_local, seed).
     bindR (array_set (no_ol_supply_w c) i supply_w) (\<lambda>supply_ws.
     bindR (get_random_number rand_r 9 seed) (\<lambda>(q, seed).
     bindR (array_set (no_ol_quantity c) i (ucast (1 + q))) (\<lambda>quantities.
       Inr (c\<lparr>no_ol_i_id := items, no_ol_supply_w := supply_ws, no_all_local := all_local,
              no_ol_quantity := quantities\<rparr>, seed)))))))))"

definition draw_new_order :: "rng \<Rightarrow> u32 \<Rightarrow> new_order_ctx \<Rightarrow> new_order_ctx result" where
  "draw_new_order rand_r seed c =
     bindR (get_random_number rand_r 0 seed) (\<lambda>(r, seed).
     let c = c\<lparr>no_w_id := 1 + r\<rparr>
     in bindR (get_random_number rand_r (DISTRICTS_PER_WAREHOUSE - 1) seed) (\<lambda>(r, seed).
     let c = c\<lparr>no_d_id := 1 + r\<rparr>
     in bindR (nurand_customer rand_r seed) (\<lambda>(c_id, seed).
     let c = c\<lparr>no_c_id := c_id\<rparr>
     in bindR (get_random_number rand_r (MAX_ORDER_LINES - MIN_ORDER_LINES) seed) (\<lambda>(r, seed).
     let c = c\<lparr>no_ol_cnt := ucast (MIN_ORDER_LINES + r), no_all_local := True\<rparr>
     in bindR (forR [0..<unat (no_ol_cnt c)] (draw_order_line rand_r) (c, seed)) (\<lambda>(c, seed). Inr c)))))"

text \<open>From the drawn parameters on: create the transaction and read the district.\<close>

definition new_order_begin :: "env \<Rightarrow> no_world \<Rightarrow> no_world result" where
  "new_order_begin e = begin_request ''fdb transaction creation failed'' (\<lambda>w. with_ctx w (\<lambda>c.
     bindR (key64 (\<lambda>b. kv_district_key b (no_w_id c) (no_d_id c))) (\<lambda>dkey.
       ignore_rc (fdb_async_get e dkey No_on_district_read w)))) e"

definition tpcc_new_order_execute :: "env \<Rightarrow> u32 \<Rightarrow> no_world \<Rightarrow> no_world result" where
  "tpcc_new_order_execute e seed w =
     (if \<not> e_calloc e (log w)
      then Inr (emit (H2o_send_error_503 ''Service Unavailable'' ''out of memory'') w)
      else bindR (draw_new_order (e_rand_r e) seed (zero_new_order_ctx\<lparr>no_seed := seed\<rparr>)) (\<lambda>c.
             new_order_begin e (w\<lparr>ctx := Some c\<rparr>)))"

section \<open>The writes of a new order\<close>

definition no_ctx_ok :: "new_order_ctx \<Rightarrow> bool" where
  "no_ctx_ok c \<longleftrightarrow> unat (no_ol_cnt c) \<le> 15 \<and> length (no_ol_supply_w c) = 15 \<and> length (no_ol_i_id c) = 15 \<and>
     length (no_ol_quantity c) = 15 \<and> length (no_s_quantity c) = 15 \<and> length (no_s_amount c) = 15"

definition oorder_set :: "byte_order \<Rightarrow> new_order_ctx \<Rightarrow> i64 \<Rightarrow> call" where
  "oorder_set bo c now = Fdb_set (key_bytes (KOorder (no_w_id c) (no_d_id c) (no_d_next_o_id c)))
     (oorder_bytes bo \<lparr>o_c_id = no_c_id c, o_carrier_id = - 1, o_ol_cnt = ucast (no_ol_cnt c),
       o_all_local = (if no_all_local c then 1 else 0), o_entry_d = now\<rparr>)"

definition order_line_set :: "byte_order \<Rightarrow> new_order_ctx \<Rightarrow> nat \<Rightarrow> call" where
  "order_line_set bo c i = Fdb_set (key_bytes (KOrderLine (no_w_id c) (no_d_id c) (no_d_next_o_id c) (of_nat i + 1)))
     (order_line_bytes bo \<lparr>ol_i_id = no_ol_i_id c ! i, ol_supply_w_id = ucast (no_ol_supply_w c ! i),
       ol_delivery_d = 0, ol_quantity = ucast (no_ol_quantity c ! i), ol_amount = no_s_amount c ! i,
       ol_dist_info = replicate 24 0\<rparr>)"

definition stock_set :: "byte_order \<Rightarrow> new_order_ctx \<Rightarrow> nat \<Rightarrow> call" where
  "stock_set bo c i = Fdb_set (key_bytes (KStock (ucast (no_ol_supply_w c ! i)) (no_ol_i_id c ! i)))
     (stock_bytes bo (zero_stock\<lparr>s_quantity := no_s_quantity c ! i, s_order_cnt := 1,
       s_ytd := ucast (no_ol_quantity c ! i)\<rparr>))"

definition new_order_writes :: "byte_order \<Rightarrow> new_order_ctx \<Rightarrow> i64 \<Rightarrow> call list" where
  "new_order_writes bo c now =
     [oorder_set bo c now, Fdb_set (key_bytes (KNewOrder (no_w_id c) (no_d_id c) (no_d_next_o_id c))) [0]] @
     map (order_line_set bo c) [0..<unat (no_ol_cnt c)] @
     [Fdb_set (key_bytes (KNextOId (no_w_id c) (no_d_id c))) (be_bytes 8 (scast (no_d_next_o_id c + 1) :: i64))] @
     map (stock_set bo c) [0..<unat (no_ol_cnt c)]"

lemma write_order_line_eq:
  assumes "no_ctx_ok c" and "i \<in> set [0..<unat (no_ol_cnt c)]" and "tr w"
  shows "write_order_line e c (no_d_next_o_id c) i w = Inr (emit (order_line_set (e_byte_order e) c i) w)"
  using assms by (simp add: write_order_line_def no_ctx_ok_def array_simps order_line_set_def)

lemma write_stock_eq:
  assumes "no_ctx_ok c" and "i \<in> set [0..<unat (no_ol_cnt c)]" and "tr w"
  shows "write_stock e c i w = Inr (emit (stock_set (e_byte_order e) c i) w)"
  using assms by (simp add: write_stock_def no_ctx_ok_def array_simps stock_set_def)

lemma schk_next:
  "sint (n :: i32) + 1 < 2 ^ 31 \<Longrightarrow> (schk (sint n + 1) :: i32 result) = Inr (n + 1)"
  using sint_ge [of n] by (simp add: schk_def)

lemma start_stock_reads_commit:
  assumes "ctx w = Some c" and "no_ctx_ok c" and "tr w" and "no_ol_cnt c \<le> no_current_ol c"
    and "sint (no_d_next_o_id c) + 1 < 2 ^ 31"
  shows "start_stock_reads e w =
    ignore_rc (fdb_async_commit e No_on_commit (emits (new_order_writes (e_byte_order e) c (e_time e (log w))) w))"
proof -
  have lines: "\<And>w. tr w \<Longrightarrow> forR [0..<unat (no_ol_cnt c)] (write_order_line e c (no_d_next_o_id c)) w =
      Inr (emits (map (order_line_set (e_byte_order e) c) [0..<unat (no_ol_cnt c)]) w)"
    using write_order_line_eq [OF assms(2)] by (intro forR_emits) auto
  have stocks: "\<And>w. tr w \<Longrightarrow> forR [0..<unat (no_ol_cnt c)] (write_stock e c) w =
      Inr (emits (map (stock_set (e_byte_order e) c) [0..<unat (no_ol_cnt c)]) w)"
    using write_stock_eq [OF assms(2)] by (intro forR_emits) auto
  show ?thesis
    using assms(1,3,4)
    by (simp add: start_stock_reads_def Let_def lines stocks schk_next [OF assms(5)] kv_encode_next_o_id_eq
        new_order_writes_def oorder_set_def emits_emit)
qed

lemma start_stock_reads_overflow:
  assumes "ctx w = Some c" and "no_ctx_ok c" and "tr w" and "no_ol_cnt c \<le> no_current_ol c"
    and "\<not> sint (no_d_next_o_id c) + 1 < 2 ^ 31"
  shows "start_stock_reads e w = Inl SignedOverflow"
proof -
  have lines: "\<And>w. tr w \<Longrightarrow> forR [0..<unat (no_ol_cnt c)] (write_order_line e c (no_d_next_o_id c)) w =
      Inr (emits (map (order_line_set (e_byte_order e) c) [0..<unat (no_ol_cnt c)]) w)"
    using write_order_line_eq [OF assms(2)] by (intro forR_emits) auto
  have "(schk (sint (no_d_next_o_id c) + 1) :: i32 result) = Inl SignedOverflow"
    using assms(5) by (simp add: schk_def)
  then show ?thesis
    using assms(1,3,4) by (simp add: start_stock_reads_def Let_def lines)
qed

lemma start_stock_reads_get:
  assumes "ctx w = Some c" and "no_ctx_ok c" and "no_current_ol c < no_ol_cnt c"
  shows "start_stock_reads e w = ignore_rc (fdb_async_get e
    (key_bytes (KStock (ucast (no_ol_supply_w c ! unat (no_current_ol c))) (no_ol_i_id c ! unat (no_current_ol c))))
    No_on_stock_read w)"
proof -
  have "unat (no_current_ol c) < 15" "\<not> no_ol_cnt c \<le> no_current_ol c"
    using assms(2,3) by (simp_all add: no_ctx_ok_def word_less_nat_alt word_le_nat_alt)
  then show ?thesis
    using assms(1,2) by (simp add: start_stock_reads_def no_ctx_ok_def array_simps)
qed

section \<open>NewOrder as a callback chain\<close>

definition no_ok :: "no_cb \<Rightarrow> new_order_ctx \<Rightarrow> bool" where
  "no_ok b c \<longleftrightarrow> no_ctx_ok c \<and> (b = No_on_stock_read \<longrightarrow> no_current_ol c < no_ol_cnt c)"

lemma new_order_writes_are_writes: "list_all is_write (new_order_writes bo c now)"
  by (auto simp: new_order_writes_def list_all_iff oorder_set_def order_line_set_def stock_set_def)

lemma new_order_writes_quiet: "quiet w (emits (new_order_writes bo c now) w)"
  using writes_all [OF new_order_writes_are_writes] by (simp add: quiet_def)

lemma start_stock_reads_outcome:
  assumes "ctx w' = Some c" and "no_ctx_ok c" and "tr w'" and "quiet w w'" and "responses (log w) = 0"
  shows "good_outcome no_ok (reliable e) {SignedOverflow} w (start_stock_reads e w')"
proof (cases "no_current_ol c < no_ol_cnt c")
  case True
  then show ?thesis
    using assms by (simp only: start_stock_reads_get) (auto intro!: async_outcomes simp: no_ok_def)
next
  case False
  then have cnt: "no_ol_cnt c \<le> no_current_ol c" by simp
  show ?thesis
  proof (cases "sint (no_d_next_o_id c) + 1 < 2 ^ 31")
    case True
    show ?thesis
      unfolding start_stock_reads_commit [OF assms(1-3) cnt True]
      using assms quiet_trans [OF assms(4) new_order_writes_quiet]
      by (intro async_outcomes(3)) (auto simp: no_ok_def)
  next
    case False
    then show ?thesis
      using start_stock_reads_overflow [OF assms(1-3) cnt] by (simp add: good_outcome_Inl)
  qed
qed

lemma finish_new_order_outcome:
  assumes "ctx w = Some c" and "tr w" and "responses (log w) = 0"
  shows "good_outcome ok rel faults w (finish_new_order status msg w)"
  using assms by (auto simp: finish_new_order_def intro!: release_outcome)

lemma no_handle_error_outcome:
  assumes "ctx w = Some c" and "no_ctx_ok c" and "tr w" and "responses (log w) = 0"
  shows "good_outcome no_ok (reliable e) faults w (ignore_rc (fdb_handle_error e err No_on_error_retry w))"
  using assms by (intro async_outcomes(4)) (auto simp: no_ok_def)

text \<open>The context after a stock row with quantity \<open>q\<close> left has been read for the current line.\<close>

definition stock_taken :: "new_order_ctx \<Rightarrow> i32 \<Rightarrow> new_order_ctx" where
  "stock_taken c q = (let idx = unat (no_current_ol c) in
     c\<lparr>no_s_quantity := (no_s_quantity c)[idx := q],
       no_s_amount := (no_s_amount c)[idx := ucast (no_ol_quantity c ! idx) * 100],
       no_current_ol := no_current_ol c + 1\<rparr>)"

lemma schk_amount: "(schk (uint (q :: u8) * 100) :: i32 result) = Inr (ucast q * 100)"
  using unsigned_less [of q, where ?'a = int]
  by (auto simp: schk_def intro: order_trans [of _ 0])

lemma no_on_stock_read_eq:
  assumes "ctx w = Some c" and "no_ok No_on_stock_read c" and "r_error r = 0"
    and "value_of_size sizeof_stock_val r = Some val"
  shows "no_on_stock_read e r w =
    bindR (schk (sint (s_quantity (cast_stock (e_byte_order e) val)) - uint (no_ol_quantity c ! unat (no_current_ol c))))
      (\<lambda>q. bindR (if sint (q :: i32) < 10 then schk (sint q + 91) else Inr q)
        (\<lambda>q. start_stock_reads e (w\<lparr>ctx := Some (stock_taken c q)\<rparr>)))"
proof -
  have "unat (no_current_ol c) < 15"
    using assms(2) by (auto simp: no_ok_def no_ctx_ok_def word_less_nat_alt)
  then show ?thesis
    using assms
    by (simp add: no_on_stock_read_def array_simps no_ok_def no_ctx_ok_def Let_def schk_amount stock_taken_def)
qed

lemma stock_taken_fields [simp]:
  "no_ol_cnt (stock_taken c q) = no_ol_cnt c" "no_d_next_o_id (stock_taken c q) = no_d_next_o_id c"
  "no_current_ol (stock_taken c q) = no_current_ol c + 1" "no_w_id (stock_taken c q) = no_w_id c"
  "no_d_id (stock_taken c q) = no_d_id c" "no_c_id (stock_taken c q) = no_c_id c"
  "no_ol_quantity (stock_taken c q) = no_ol_quantity c" "no_ol_i_id (stock_taken c q) = no_ol_i_id c"
  "no_ol_supply_w (stock_taken c q) = no_ol_supply_w c" "no_all_local (stock_taken c q) = no_all_local c"
  by (simp_all add: stock_taken_def Let_def)

lemma stock_taken_ok: "no_ctx_ok c \<Longrightarrow> no_ctx_ok (stock_taken c q)"
  by (simp add: no_ctx_ok_def stock_taken_def Let_def)

lemma no_on_stock_read_outcome:
  assumes "ctx w = Some c" and "no_ok No_on_stock_read c" and "tr w" and "responses (log w) = 0"
  shows "good_outcome no_ok (reliable e) {SignedOverflow} w (no_on_stock_read e r w)"
proof (cases "r_error r \<noteq> 0 \<or> value_of_size sizeof_stock_val r = None")
  case True
  then show ?thesis
    using assms no_handle_error_outcome finish_new_order_outcome by (auto simp: no_on_stock_read_def no_ok_def)
next
  case False
  then obtain val where val: "r_error r = 0" "value_of_size sizeof_stock_val r = Some val" by auto
  have "good_outcome no_ok (reliable e) {SignedOverflow} w (start_stock_reads e (w\<lparr>ctx := Some (stock_taken c q)\<rparr>))" for q
    using assms stock_taken_ok by (intro start_stock_reads_outcome) (auto simp: no_ok_def)
  then show ?thesis
    unfolding no_on_stock_read_eq [OF assms(1,2) val]
    by (intro good_outcome_bind_schk) (auto intro!: good_outcome_bind_schk)
qed

lemma no_run_outcome:
  assumes "alive no_ok b w"
  shows "good_outcome no_ok (reliable e) {SignedOverflow} w (no_run e b r w)"
proof -
  obtain c where c: "ctx w = Some c" "no_ok b c" "no_ctx_ok c" "tr w" "responses (log w) = 0"
    using assms by (auto simp: alive_def no_ok_def)
  have fail: "good_outcome no_ok (reliable e) {SignedOverflow} w (ignore_rc (fdb_handle_error e err No_on_error_retry w))"
      "good_outcome no_ok (reliable e) {SignedOverflow} w (finish_new_order status msg w)" for err status msg
    using c no_handle_error_outcome finish_new_order_outcome by blast+
  show ?thesis
  proof (cases b)
    case No_on_district_read
    then show ?thesis
      using c(1,3,4,5) fail
      by (auto simp: no_on_district_read_def Let_def no_ok_def no_ctx_ok_def intro!: async_outcomes(1)
          split: option.splits)
  next
    case No_on_customer_read
    then show ?thesis
      using c(1,3,4,5) fail
      by (auto simp: no_on_customer_read_def Let_def no_ctx_ok_def intro!: start_stock_reads_outcome
          split: option.splits)
  next
    case No_on_stock_read
    then show ?thesis using no_on_stock_read_outcome c by simp
  next
    case No_on_commit
    then show ?thesis
      using c(1,3,4,5) fail by (auto simp: no_on_commit_def Let_def intro!: release_outcome)
  next
    case No_on_error_retry
    then show ?thesis
      using c(1,3,4,5) fail
      by (auto simp: no_on_error_retry_def Let_def no_ok_def no_ctx_ok_def intro!: async_outcomes(1)
         )
  qed
qed

interpretation new_order: callback_chain "no_run e" no_ok "reliable e" "{SignedOverflow}" for e
  by unfold_locales (rule no_run_outcome)

text \<open>
  The callbacks still to come in an attempt are at most one for the district, one for the customer, one for each line
  whose stock has not been read and one for the commit; with an error a retry is asked for, which starts from the district.
\<close>

fun no_rank :: "no_cb \<Rightarrow> new_order_ctx \<Rightarrow> nat" where
  "no_rank No_on_error_retry c = unat (no_ol_cnt c) + 4"
| "no_rank No_on_district_read c = unat (no_ol_cnt c) + 3"
| "no_rank No_on_customer_read c = unat (no_ol_cnt c) + 2"
| "no_rank No_on_stock_read c = unat (no_ol_cnt c) - unat (no_current_ol c) + 1"
| "no_rank No_on_commit c = 1"

abbreviation no_restart :: "new_order_ctx \<Rightarrow> nat" where "no_restart c \<equiv> unat (no_ol_cnt c) + 5"

lemma current_ol_Suc:
  assumes "no_ctx_ok c" and "unat (no_current_ol c) < unat (no_ol_cnt c)"
  shows "unat (no_current_ol c + 1) = Suc (unat (no_current_ol c))"
proof -
  have "unat (no_current_ol c) < 15" using assms by (simp add: no_ctx_ok_def)
  then show ?thesis by (subst unat_plus_if') simp
qed

lemma start_stock_reads_ranked:
  assumes "ctx w' = Some c'" and "no_ctx_ok c'" and "tr w'" and "pending w' = pending w" and "log w' = log w"
    and "no_restart c' = no_restart c" and "unat (no_ol_cnt c') - unat (no_current_ol c') + 1 < n" and "1 < n"
  shows "ranked no_rank no_restart r c n w (start_stock_reads e w')"
proof (cases "no_current_ol c' < no_ol_cnt c'")
  case True
  then show ?thesis
    using assms by (simp add: start_stock_reads_get) (auto intro!: ranked_async)
next
  case False
  then have cnt: "no_ol_cnt c' \<le> no_current_ol c'" by simp
  show ?thesis
  proof (cases "sint (no_d_next_o_id c') + 1 < 2 ^ 31")
    case True
    then show ?thesis
      using start_stock_reads_commit [OF assms(1-3) cnt True] assms
      by (auto intro!: ranked_async simp: retries_writes [OF new_order_writes_are_writes])
  next
    case False
    then show ?thesis using start_stock_reads_overflow [OF assms(1-3) cnt] by simp
  qed
qed

lemma no_run_ranked:
  assumes "alive no_ok b w" and "ctx w = Some c"
  shows "ranked no_rank no_restart r c (no_rank b c) w (no_run e b r w)"
proof -
  have c: "no_ok b c" "no_ctx_ok c" "tr w" using assms(1,2) by (auto simp: alive_def no_ok_def)
  have fin: "ranked no_rank no_restart r c n w (finish_new_order status msg w)" for n status msg
    using assms(2) by (auto simp: finish_new_order_def intro!: ranked_release)
  show ?thesis
  proof (cases "b = No_on_stock_read \<and> r_error r = 0")
    case True
    then have k: "unat (no_current_ol c) < unat (no_ol_cnt c)" using c(1) by (simp add: no_ok_def word_less_nat_alt)
    show ?thesis
    proof (cases "value_of_size sizeof_stock_val r")
      case None
      then show ?thesis using True assms(2) fin by (simp add: no_on_stock_read_def)
    next
      case (Some val)
      have "ranked no_rank no_restart r c (no_rank b c) w (start_stock_reads e (w\<lparr>ctx := Some (stock_taken c q)\<rparr>))" for q
        using stock_taken_ok [OF c(2), of q] c(3) k current_ol_Suc [OF c(2) k] True
        by (intro start_stock_reads_ranked [where c' = "stock_taken c q"]) simp_all
      then show ?thesis
        using True no_on_stock_read_eq [OF assms(2) _ _ Some, of e] c(1)
        by (auto intro!: ranked_bind_schk)
    qed
  next
    case False
    then show ?thesis
      using assms c fin
      by (cases b) (auto simp: no_on_district_read_def no_on_customer_read_def no_on_stock_read_def no_on_commit_def
          no_on_error_retry_def Let_def no_ctx_ok_def intro!: ranked_intros start_stock_reads_ranked split: option.split)
  qed
qed

interpretation new_order_ranked: ranked_chain "no_run e" no_ok "reliable e" "{SignedOverflow}" no_rank no_restart for e
  using no_run_ranked by unfold_locales (auto simp: ranked_def)

text \<open>The tables a NewOrder writes.\<close>

fun no_tables :: "tkey \<Rightarrow> bool" where
  "no_tables (KStock _ _) = True"
| "no_tables (KOorder _ _ _) = True"
| "no_tables (KNewOrder _ _ _) = True"
| "no_tables (KOrderLine _ _ _ _) = True"
| "no_tables (KNextOId _ _) = True"
| "no_tables _ = False"

lemma start_stock_reads_shaped: "shaped no_tables w \<Longrightarrow> allR (shaped no_tables) (start_stock_reads e w)"
  unfolding start_stock_reads_def write_order_line_def write_stock_def Let_def
  by (auto simp: kv_encode_next_o_id_eq row_wf_defs zero_stock_def intro!: shaped_intros tpcc_row)

interpretation new_order_shaping: shaping_chain "no_run e" no_tables for e
proof unfold_locales
  fix b r w w' assume "no_run e b r w = Inr w'" "shaped no_tables w"
  moreover have "shaped no_tables w \<Longrightarrow> allR (shaped no_tables) (no_run e b r w)"
    by (cases b) (auto simp: no_on_district_read_def no_on_customer_read_def no_on_stock_read_def no_on_commit_def
        no_on_error_retry_def finish_new_order_def Let_def intro!: shaped_intros start_stock_reads_shaped split: option.split)
  ultimately show "shaped no_tables w'" by (simp add: allR_def)
qed

section \<open>A NewOrder that succeeds\<close>

text \<open>The quantity left after an order of \<open>q\<close> from a stock of \<open>s\<close>, replenished when it falls below ten.\<close>

definition restock :: "i32 \<Rightarrow> u8 \<Rightarrow> i32" where
  "restock s q = (let n = s - ucast q in if sint n < 10 then n + 91 else n)"

definition stock_in_range :: "i32 \<Rightarrow> bool" where
  "stock_in_range s \<longleftrightarrow> - (2 ^ 31) + 255 \<le> sint s"

lemma restock_sint:
  assumes "stock_in_range s"
  shows "sint (s - ucast (q :: u8)) = sint s - uint q"
    and "sint (restock s q) = (if sint s - uint q < 10 then sint s - uint q + 91 else sint s - uint q)"
    and "(schk (sint s - uint q) :: i32 result) = Inr (s - ucast q)"
proof -
  have q: "0 \<le> uint q" "uint q < 256" using unsigned_less [of q, where ?'a = int] by simp_all
  have s: "sint s < 2 ^ 31" using sint_lt [of s] by simp
  have w: "s - ucast q = word_of_int (sint s - uint q)" by simp
  have b: "- (2 ^ 31) \<le> sint s - uint q" "sint s - uint q < 2 ^ 31"
    using q s assms unfolding stock_in_range_def by linarith+
  show 1: "sint (s - ucast q) = sint s - uint q"
    unfolding w using b by (subst sint_word_of_int_inrange) simp_all
  show "(schk (sint s - uint q) :: i32 result) = Inr (s - ucast q)"
    using b by (simp add: schk_def)
  have "sint (s - ucast q + 91) = sint s - uint q + 91" if "sint s - uint q < 10"
  proof -
    have "s - ucast q + 91 = word_of_int (sint s - uint q + 91)" by simp
    moreover have "sint (word_of_int (sint s - uint q + 91) :: i32) = sint s - uint q + 91"
      using b that by (intro sint_word_of_int_inrange) simp_all
    ultimately show ?thesis by simp
  qed
  then show "sint (restock s q) = (if sint s - uint q < 10 then sint s - uint q + 91 else sint s - uint q)"
    using 1 by (simp add: restock_def Let_def)
qed

lemma stock_arithmetic:
  assumes "stock_in_range s"
  shows "bindR (schk (sint s - uint (q :: u8))) (\<lambda>n. bindR (if sint (n :: i32) < 10 then schk (sint n + 91) else Inr n) f) =
    f (restock s q)"
proof -
  have "(schk (sint s - uint q + 91) :: i32 result) = Inr (s - ucast q + 91)" if "sint s - uint q < 10"
    using that assms unsigned_less [of q, where ?'a = int] by (auto simp: schk_def stock_in_range_def)
  then show ?thesis
    using restock_sint(1,3) [OF assms, of q] by (auto simp: restock_def Let_def)
qed

text \<open>The context after the stock rows \<open>vals\<close> have been read for the lines from the current one on.\<close>

fun take_stocks :: "byte_order \<Rightarrow> new_order_ctx \<Rightarrow> bytes list \<Rightarrow> new_order_ctx" where
  "take_stocks bo c [] = c"
| "take_stocks bo c (v # vs) =
     take_stocks bo (stock_taken c (restock (s_quantity (cast_stock bo v)) (no_ol_quantity c ! unat (no_current_ol c)))) vs"

definition stock_row_ok :: "byte_order \<Rightarrow> bytes \<Rightarrow> bool" where
  "stock_row_ok bo v \<longleftrightarrow> sizeof_stock_val \<le> length v \<and> stock_in_range (s_quantity (cast_stock bo v))"

lemma take_stocks_fields:
  "no_w_id (take_stocks bo c vs) = no_w_id c \<and> no_d_id (take_stocks bo c vs) = no_d_id c \<and>
   no_c_id (take_stocks bo c vs) = no_c_id c \<and> no_d_next_o_id (take_stocks bo c vs) = no_d_next_o_id c \<and>
   no_ol_cnt (take_stocks bo c vs) = no_ol_cnt c \<and> no_ol_quantity (take_stocks bo c vs) = no_ol_quantity c \<and>
   no_ol_i_id (take_stocks bo c vs) = no_ol_i_id c \<and> no_ol_supply_w (take_stocks bo c vs) = no_ol_supply_w c \<and>
   no_all_local (take_stocks bo c vs) = no_all_local c"
  by (induction vs arbitrary: c) simp_all

text \<open>Line \<open>i\<close> keeps what was recorded for it; the lines still to come get their quantities and amounts.\<close>

lemma take_stocks_lines:
  assumes "no_ctx_ok c" and "unat (no_current_ol c) + length vs \<le> unat (no_ol_cnt c)"
    and "i < unat (no_current_ol c) + length vs"
  shows "no_s_quantity (take_stocks bo c vs) ! i =
      (if i < unat (no_current_ol c) then no_s_quantity c ! i
       else restock (s_quantity (cast_stock bo (vs ! (i - unat (no_current_ol c))))) (no_ol_quantity c ! i)) \<and>
    no_s_amount (take_stocks bo c vs) ! i =
      (if i < unat (no_current_ol c) then no_s_amount c ! i else ucast (no_ol_quantity c ! i) * 100)"
  using assms
proof (induction vs arbitrary: c)
  case (Cons v vs)
  let ?k = "unat (no_current_ol c)"
  let ?q = "restock (s_quantity (cast_stock bo v)) (no_ol_quantity c ! ?k)"
  have k: "unat (no_current_ol c + 1) = Suc ?k" "?k < 15"
    using current_ol_Suc [OF Cons.prems(1)] Cons.prems(1,2) by (simp_all add: no_ctx_ok_def)
  have IH: "no_s_quantity (take_stocks bo (stock_taken c ?q) vs) ! i =
      (if i < Suc ?k then no_s_quantity (stock_taken c ?q) ! i
       else restock (s_quantity (cast_stock bo (vs ! (i - Suc ?k)))) (no_ol_quantity c ! i)) \<and>
    no_s_amount (take_stocks bo (stock_taken c ?q) vs) ! i =
      (if i < Suc ?k then no_s_amount (stock_taken c ?q) ! i else ucast (no_ol_quantity c ! i) * 100)"
    using Cons.IH [of "stock_taken c ?q"] Cons.prems stock_taken_ok k by simp
  have "no_s_quantity (stock_taken c ?q) ! i = (if i = ?k then ?q else no_s_quantity c ! i)" if "i < Suc ?k"
    using that k Cons.prems(1) by (simp add: stock_taken_def Let_def no_ctx_ok_def nth_list_update)
  moreover have "no_s_amount (stock_taken c ?q) ! i =
      (if i = ?k then ucast (no_ol_quantity c ! i) * 100 else no_s_amount c ! i)" if "i < Suc ?k"
    using that k Cons.prems(1) by (simp add: stock_taken_def Let_def no_ctx_ok_def nth_list_update)
  ultimately show ?case
    using IH by (cases i ?k rule: linorder_cases) (auto simp: nth_Cons')
qed simp

lemma stock_phase:
  assumes "reliable e" and "vals \<noteq> []" and "no_ctx_ok c"
    and "unat (no_current_ol c) + length vals = unat (no_ol_cnt c)"
    and "list_all (stock_row_ok (e_byte_order e)) vals" and "sint (no_d_next_o_id c) + 1 < 2 ^ 31"
  shows "\<exists>l' now. run_chain (no_run e) (map row_reply vals) (waiting_world st c l No_on_stock_read) =
      Inr (waiting_world st (take_stocks (e_byte_order e) c vals) l' No_on_commit) \<and>
    writes l' = writes l @ new_order_writes (e_byte_order e) (take_stocks (e_byte_order e) c vals) now \<and>
    responses l' = responses l"
  using assms(2-)
proof (induction vals arbitrary: c l)
  case (Cons v vs)
  let ?bo = "e_byte_order e"
  let ?k = "unat (no_current_ol c)"
  let ?c = "stock_taken c (restock (s_quantity (cast_stock ?bo v)) (no_ol_quantity c ! ?k))"
  have row: "value_of_size sizeof_stock_val (row_reply v) = Some v" "stock_in_range (s_quantity (cast_stock ?bo v))"
    using Cons.prems(4) by (simp_all add: stock_row_ok_def)
  have lt: "?k < unat (no_ol_cnt c)" using Cons.prems(3) by simp
  then have ok: "no_ok No_on_stock_read c" using Cons.prems(2) by (simp add: no_ok_def word_less_nat_alt)
  have Sk: "unat (no_current_ol c + 1) = Suc ?k" using current_ol_Suc [OF Cons.prems(2) lt] .
  have okc: "no_ctx_ok ?c" using stock_taken_ok [OF Cons.prems(2)] .
  have body: "no_run e No_on_stock_read (row_reply v) (running_world st c l) =
      start_stock_reads e (running_world st ?c l)"
    using no_on_stock_read_eq [OF _ ok, of "running_world st c l" "row_reply v" v e] row
    by (simp add: stock_arithmetic)
  show ?case
  proof (cases "vs = []")
    case True
    have last: "no_ol_cnt ?c \<le> no_current_ol ?c"
      using Cons.prems(3) True Sk by (simp add: word_le_nat_alt)
    let ?l = "l @ new_order_writes ?bo ?c (e_time e l) @ [Fdb_commit]"
    have "start_stock_reads e (running_world st ?c l) = Inr (registered No_on_commit (running_world st ?c ?l))"
      using start_stock_reads_commit [OF _ okc _ last, of "running_world st ?c l" e] Cons.prems(5)
      by (simp add: reliable_async [OF assms(1)])
    then show ?thesis
      using run_chain_continue [of "no_run e" No_on_stock_read "row_reply v" st c l No_on_commit ?c ?l "[]"]
        body True writes_all [OF new_order_writes_are_writes]
      by (intro exI [of _ "?l @ [Fdb_future_destroy]"] exI [of _ "e_time e l"]) auto
  next
    case False
    then have lt': "no_current_ol ?c < no_ol_cnt ?c"
      using Cons.prems(3) Sk by (cases vs) (simp_all add: word_less_nat_alt)
    let ?l = "l @ [Fdb_get (key_bytes (KStock (ucast (no_ol_supply_w ?c ! unat (no_current_ol ?c)))
      (no_ol_i_id ?c ! unat (no_current_ol ?c))))]"
    have "start_stock_reads e (running_world st ?c l) = Inr (registered No_on_stock_read (running_world st ?c ?l))"
      using start_stock_reads_get [OF _ okc lt', of "running_world st ?c l" e]
      by (simp add: reliable_async [OF assms(1)] del: stock_taken_fields)
    then have "run_chain (no_run e) (row_reply v # map row_reply vs) (waiting_world st c l No_on_stock_read) =
        run_chain (no_run e) (map row_reply vs) (waiting_world st ?c (?l @ [Fdb_future_destroy]) No_on_stock_read)"
      using body by (intro run_chain_continue) simp
    moreover have "unat (no_current_ol ?c) + length vs = unat (no_ol_cnt ?c)"
      using Cons.prems(3) Sk by simp
    ultimately show ?thesis
      using Cons.IH [OF False okc, of "?l @ [Fdb_future_destroy]"] Cons.prems(4,5) by (simp)
  qed
qed simp

text \<open>
  The order that results from the district row \<open>dval\<close> and the stock rows \<open>vals\<close>: its number is the
  district's next order number, each line takes its quantity from the stock and is charged
  a hundred times the quantity.
\<close>

definition placed_order :: "byte_order \<Rightarrow> new_order_ctx \<Rightarrow> bytes \<Rightarrow> bytes list \<Rightarrow> new_order_ctx" where
  "placed_order bo c dval vals =
     c\<lparr>no_d_next_o_id := d_next_o_id (cast_district bo dval),
       no_s_quantity := map (\<lambda>i. restock (s_quantity (cast_stock bo (vals ! i))) (no_ol_quantity c ! i)) [0..<length vals],
       no_s_amount := map (\<lambda>i. ucast (no_ol_quantity c ! i) * 100) [0..<length vals]\<rparr>"

lemma new_order_writes_cong:
  assumes "no_w_id c = no_w_id d" "no_d_id c = no_d_id d" "no_c_id c = no_c_id d"
    "no_d_next_o_id c = no_d_next_o_id d" "no_ol_cnt c = no_ol_cnt d" "no_ol_quantity c = no_ol_quantity d"
    "no_ol_i_id c = no_ol_i_id d" "no_ol_supply_w c = no_ol_supply_w d" "no_all_local c = no_all_local d"
    and "\<And>i. i < unat (no_ol_cnt d) \<Longrightarrow> no_s_quantity c ! i = no_s_quantity d ! i \<and> no_s_amount c ! i = no_s_amount d ! i"
  shows "new_order_writes bo c now = new_order_writes bo d now"
proof -
  have "map (order_line_set bo c) [0..<unat (no_ol_cnt d)] = map (order_line_set bo d) [0..<unat (no_ol_cnt d)]"
      "map (stock_set bo c) [0..<unat (no_ol_cnt d)] = map (stock_set bo d) [0..<unat (no_ol_cnt d)]"
    using assms by (auto simp: order_line_set_def stock_set_def)
  then show ?thesis
    using assms(1-9) by (simp add: new_order_writes_def oorder_set_def)
qed

lemma new_order_run:
  assumes rel: "reliable e" and ok: "no_ctx_ok c" and cnt: "length vals = unat (no_ol_cnt c)" "vals \<noteq> []"
    and rows: "sizeof_district_val \<le> length dval" "sizeof_customer_val \<le> length cval"
      "list_all (stock_row_ok (e_byte_order e)) vals"
    and room: "sint (d_next_o_id (cast_district (e_byte_order e) dval)) + 1 < 2 ^ 31"
  shows "\<exists>l' now. run_chain (no_run e) (row_reply dval # row_reply cval # map row_reply vals @ [ok_reply])
      (waiting_world st c l No_on_district_read) = Inr (finished_world st (l' @ [H2o_send_inline (Yajl
        [Map_open, Jstring (c_str ''status''), Jstring (c_str ''ok''), Jstring (c_str ''o_id''),
         Jinteger (sint (d_next_o_id (cast_district (e_byte_order e) dval))), Map_close]),
        Fdb_transaction_destroy, Fdb_future_destroy])) \<and>
    writes l' = writes l @ new_order_writes (e_byte_order e) (placed_order (e_byte_order e) c dval vals) now \<and>
    responses l' = responses l"
proof -
  let ?bo = "e_byte_order e"
  let ?c1 = "c\<lparr>no_d_tax := d_tax (cast_district ?bo dval), no_d_next_o_id := d_next_o_id (cast_district ?bo dval)\<rparr>"
  let ?c2 = "?c1\<lparr>no_c_discount := c_discount (cast_customer ?bo cval), no_current_ol := 0\<rparr>"
  let ?l1 = "l @ [Fdb_get (key_bytes (KCustomer (no_w_id c) (no_d_id c) (no_c_id c)))]"
  let ?l2 = "?l1 @ [Fdb_future_destroy, Fdb_get (key_bytes (KStock (ucast (no_ol_supply_w c ! 0)) (no_ol_i_id c ! 0)))]"
  let ?c3 = "take_stocks ?bo ?c2 vals"
  have ok2: "no_ctx_ok ?c2" using ok by (simp add: no_ctx_ok_def)
  have pos: "no_current_ol ?c2 < no_ol_cnt ?c2" using cnt by (cases vals) (simp_all add: word_less_nat_alt)
  have 1: "no_run e No_on_district_read (row_reply dval) (running_world st c l) =
      Inr (registered No_on_customer_read (running_world st ?c1 ?l1))"
    using rows(1) by (simp add: no_on_district_read_def Let_def reliable_async [OF rel])
  have 2: "no_run e No_on_customer_read (row_reply cval) (running_world st ?c1 (?l1 @ [Fdb_future_destroy])) =
      Inr (registered No_on_stock_read (running_world st ?c2 ?l2))"
    using rows(2) start_stock_reads_get [OF _ ok2 pos, of "running_world st ?c2 (?l1 @ [Fdb_future_destroy])" e]
    by (simp add: no_on_customer_read_def Let_def reliable_async [OF rel])
  obtain l3 now where 3: "run_chain (no_run e) (map row_reply vals)
        (waiting_world st ?c2 (?l2 @ [Fdb_future_destroy]) No_on_stock_read) = Inr (waiting_world st ?c3 l3 No_on_commit)"
      "writes l3 = writes (?l2 @ [Fdb_future_destroy]) @ new_order_writes ?bo ?c3 now"
      "responses l3 = responses (?l2 @ [Fdb_future_destroy])"
    using stock_phase [OF rel cnt(2) ok2 _ rows(3)] cnt(1) room by fastforce
  have id3: "no_d_next_o_id ?c3 = d_next_o_id (cast_district ?bo dval)"
    using take_stocks_fields [of ?bo ?c2 vals] by simp
  have 4: "run_chain (no_run e) [ok_reply] (waiting_world st ?c3 l3 No_on_commit) = Inr (finished_world st
      ((l3 @ [H2o_send_inline (Yajl [Map_open, Jstring (c_str ''status''), Jstring (c_str ''ok''),
        Jstring (c_str ''o_id''), Jinteger (sint (d_next_o_id (cast_district ?bo dval))), Map_close])]) @
        [Fdb_transaction_destroy, Fdb_future_destroy]))"
    using id3 by (intro run_chain_finish [where c' = "?c3\<lparr>no_committed := True\<rparr>"]) (simp add: no_on_commit_def Let_def)
  have "new_order_writes ?bo ?c3 now = new_order_writes ?bo (placed_order ?bo c dval vals) now"
    using take_stocks_fields [of ?bo ?c2 vals] take_stocks_lines [OF ok2, of vals] cnt(1)
    by (intro new_order_writes_cong) (auto simp: placed_order_def)
  moreover have "run_chain (no_run e) (row_reply dval # row_reply cval # map row_reply vals @ [ok_reply])
      (waiting_world st c l No_on_district_read) =
      run_chain (no_run e) [ok_reply] (waiting_world st ?c3 l3 No_on_commit)"
    using 3(1) by (simp only: run_chain_continue [where run = "no_run e", OF 1] run_chain_continue [where run = "no_run e", OF 2] run_chain_append) simp
  ultimately show ?thesis
    using 3(2,3) 4 by (intro exI [of _ l3] exI [of _ now]) simp
qed

section \<open>NewOrder against a store\<close>

text \<open>
  What a NewOrder does, given the rows of the store and the time of its writes: the lines take their stock one after the
  other, then the order is written; a missing row ends the request with an error, and the arithmetic can overflow.
\<close>

definition stock_key :: "new_order_ctx \<Rightarrow> bytes" where
  "stock_key c = key_bytes (KStock (ucast (no_ol_supply_w c ! unat (no_current_ol c))) (no_ol_i_id c ! unat (no_current_ol c)))"

definition stock_left :: "i32 \<Rightarrow> u8 \<Rightarrow> i32 result" where
  "stock_left s q = bindR (schk (sint s - uint q)) (\<lambda>n. if sint (n :: i32) < 10 then schk (sint n + 91) else Inr n)"

fun stocks_spec :: "byte_order \<Rightarrow> rows \<Rightarrow> nat \<Rightarrow> new_order_ctx \<Rightarrow> new_order_ctx option result" where
  "stocks_spec bo rows 0 c = Inr (Some c)"
| "stocks_spec bo rows (Suc n) c =
     (case row_at sizeof_stock_val rows (stock_key c) of
        None \<Rightarrow> Inr None
      | Some v \<Rightarrow> bindR (stock_left (s_quantity (cast_stock bo v)) (no_ol_quantity c ! unat (no_current_ol c))) (\<lambda>q.
          stocks_spec bo rows n (stock_taken c q)))"

definition new_order_ok_response :: "new_order_ctx \<Rightarrow> call" where
  "new_order_ok_response c = H2o_send_inline (Yajl [Map_open, Jstring (c_str ''status''), Jstring (c_str ''ok''),
     Jstring (c_str ''o_id''), Jinteger (sint (no_d_next_o_id c)), Map_close])"

definition place_spec :: "byte_order \<Rightarrow> i64 \<Rightarrow> new_order_ctx option \<Rightarrow> (call list \<times> call) result" where
  "place_spec bo now oc =
     (case oc of
        None \<Rightarrow> Inr ([], H2o_send_error_generic 500 ''Error'' ''stock not found'')
      | Some c \<Rightarrow> if sint (no_d_next_o_id c) + 1 < 2 ^ 31 then Inr (new_order_writes bo c now, new_order_ok_response c)
                  else Inl SignedOverflow)"

definition new_order_spec :: "byte_order \<Rightarrow> rows \<Rightarrow> new_order_ctx \<Rightarrow> i64 \<Rightarrow> (call list \<times> call) result" where
  "new_order_spec bo rows c now =
     (case row_at sizeof_district_val rows (key_bytes (KDistrict (no_w_id c) (no_d_id c))) of
        None \<Rightarrow> Inr ([], H2o_send_error_generic 500 ''Error'' ''district not found'')
      | Some dval \<Rightarrow>
     case row_at sizeof_customer_val rows (key_bytes (KCustomer (no_w_id c) (no_d_id c) (no_c_id c))) of
        None \<Rightarrow> Inr ([], H2o_send_error_generic 500 ''Error'' ''customer not found'')
      | Some cval \<Rightarrow>
          bindR (stocks_spec bo rows (unat (no_ol_cnt c))
            (c\<lparr>no_d_tax := d_tax (cast_district bo dval), no_d_next_o_id := d_next_o_id (cast_district bo dval),
               no_c_discount := c_discount (cast_customer bo cval), no_current_ol := 0\<rparr>)) (place_spec bo now))"

lemma stock_left_eq: "stock_in_range s \<Longrightarrow> stock_left s q = Inr (restock s q)"
  using stock_arithmetic [of s q Inr] by (auto simp: stock_left_def bindR_def split: sum.splits if_splits)

lemma stocks_spec_fields:
  "stocks_spec bo rows n c = Inr (Some c') \<Longrightarrow> no_w_id c' = no_w_id c \<and> no_d_id c' = no_d_id c \<and> no_c_id c' = no_c_id c \<and>
     no_d_next_o_id c' = no_d_next_o_id c"
  by (induction n arbitrary: c) (auto simp: bindR_eq_Inr_iff split: option.splits)

lemma new_order_spec_places:
  assumes "new_order_spec bo rows c now = Inr (ws, response)" and "ws \<noteq> []"
  obtains dval c' where "row_at sizeof_district_val rows (key_bytes (KDistrict (no_w_id c) (no_d_id c))) = Some dval"
    "ws = new_order_writes bo c' now" "response = new_order_ok_response c'"
    "no_w_id c' = no_w_id c" "no_d_id c' = no_d_id c" "no_c_id c' = no_c_id c"
    "no_d_next_o_id c' = d_next_o_id (cast_district bo dval)"
  using assms
  by (auto simp: new_order_spec_def place_spec_def bindR_eq_Inr_iff split: option.splits if_splits dest!: stocks_spec_fields)

text \<open>An order keeps what it was asked for; what an attempt has read does not matter to the next one.\<close>

definition same_order :: "new_order_ctx \<Rightarrow> new_order_ctx \<Rightarrow> bool" where
  "same_order c c' \<longleftrightarrow> no_w_id c' = no_w_id c \<and> no_d_id c' = no_d_id c \<and> no_c_id c' = no_c_id c \<and>
     no_ol_cnt c' = no_ol_cnt c \<and> no_all_local c' = no_all_local c \<and> no_ol_supply_w c' = no_ol_supply_w c \<and>
     no_ol_i_id c' = no_ol_i_id c \<and> no_ol_quantity c' = no_ol_quantity c"

text \<open>Two attempts at the same order that have read the same order number and the same stock so far.\<close>

definition same_progress :: "new_order_ctx \<Rightarrow> new_order_ctx \<Rightarrow> bool" where
  "same_progress c c' \<longleftrightarrow> same_order c c' \<and> no_d_next_o_id c' = no_d_next_o_id c \<and> no_current_ol c' = no_current_ol c \<and>
     (\<forall>i < unat (no_current_ol c). no_s_quantity c' ! i = no_s_quantity c ! i \<and> no_s_amount c' ! i = no_s_amount c ! i)"

lemma same_progress_stock:
  assumes "same_progress c c'" and "no_ctx_ok c" and "no_ctx_ok c'" and "unat (no_current_ol c) < unat (no_ol_cnt c)"
  shows "same_progress (stock_taken c q) (stock_taken c' q)"
proof -
  have "unat (no_current_ol c) < 15" using assms(2,4) by (simp add: no_ctx_ok_def)
  then show ?thesis
    using assms current_ol_Suc [OF assms(2,4)]
    by (auto simp: same_progress_def same_order_def stock_taken_def Let_def no_ctx_ok_def
        nth_list_update less_Suc_eq)
qed

lemma place_spec_same:
  assumes "same_progress c c'" and "no_current_ol c = no_ol_cnt c"
  shows "place_spec bo now (Some c') = place_spec bo now (Some c)"
  using assms
  by (auto simp: same_progress_def same_order_def place_spec_def new_order_writes_def new_order_ok_response_def
      oorder_set_def order_line_set_def stock_set_def)

lemma stocks_spec_same:
  assumes "same_progress c c'" and "no_ctx_ok c" and "no_ctx_ok c'" and "unat (no_current_ol c) + n = unat (no_ol_cnt c)"
  shows "bindR (stocks_spec bo rows n c') (place_spec bo now) = bindR (stocks_spec bo rows n c) (place_spec bo now)"
  using assms
proof (induction n arbitrary: c c')
  case 0
  then show ?case using place_spec_same [OF 0(1)] by (simp add: word_unat_eq_iff)
next
  case (Suc n)
  have k: "unat (no_current_ol c) < unat (no_ol_cnt c)" using Suc.prems(4) by simp
  have "stock_key c' = stock_key c" "no_ol_quantity c' = no_ol_quantity c" "no_current_ol c' = no_current_ol c"
    using Suc.prems(1) by (simp_all add: same_progress_def same_order_def stock_key_def)
  moreover have "bindR (stocks_spec bo rows n (stock_taken c' q)) (place_spec bo now) =
      bindR (stocks_spec bo rows n (stock_taken c q)) (place_spec bo now)" for q
    using Suc.prems(4) current_ol_Suc [OF Suc.prems(2) k]
    by (intro Suc.IH same_progress_stock [OF Suc.prems(1-3) k] stock_taken_ok Suc.prems(2,3)) simp
  ultimately show ?case by (simp add: bindR_assoc split: option.split)
qed

lemma new_order_spec_same:
  assumes "same_order c c'" and "no_ctx_ok c" and "no_ctx_ok c'"
  shows "new_order_spec bo rows c' now = new_order_spec bo rows c now"
proof -
  have "bindR (stocks_spec bo rows (unat (no_ol_cnt c)) (c'\<lparr>no_d_tax := t, no_d_next_o_id := i, no_c_discount := d, no_current_ol := 0\<rparr>))
        (place_spec bo now) =
      bindR (stocks_spec bo rows (unat (no_ol_cnt c)) (c\<lparr>no_d_tax := t, no_d_next_o_id := i, no_c_discount := d, no_current_ol := 0\<rparr>))
        (place_spec bo now)" for t i d
    by (rule stocks_spec_same) (use assms in \<open>simp_all add: same_progress_def same_order_def no_ctx_ok_def\<close>)
  then show ?thesis using assms(1) by (simp add: new_order_spec_def same_order_def split: option.split)
qed

lemma new_order_spec_writing: "writing (new_order_spec bo rows c now) \<Longrightarrow> writing (new_order_spec bo rows c now')"
  by (auto simp: writing_def new_order_spec_def place_spec_def new_order_writes_def bindR_def split: option.splits sum.splits if_splits)

abbreviation order_asked :: "new_order_ctx \<Rightarrow> new_order_ctx \<Rightarrow> call \<Rightarrow> bool" where
  "order_asked c c' response \<equiv> (same_order c c' \<and> no_ctx_ok c') \<and> response = new_order_ok_response c'"

lemma finish_new_order_served:
  assumes "no_run e b (reply l) (running_world st c l) = finish_new_order 500 msg (running_world st c l)"
    and "writes (attempt l) = []" and "filter is_response l = []" and "Fdb_commit \<notin> set (attempt l)"
  shows "attempted st n' (no_run e) reply b' P k (serve (Suc n) (no_run e) reply (waiting_world st c l b))
    (Inr ([], H2o_send_error_generic 500 ''Error'' msg))"
proof -
  have "serve (Suc n) (no_run e) reply (waiting_world st c l b) = Inr (finished_world st
      ((l @ [H2o_send_error_generic 500 ''Error'' msg]) @ [Fdb_transaction_destroy, Fdb_future_destroy]))"
    using assms(1) by (intro serve_finish [where c' = c]) (simp add: finish_new_order_def)
  then show ?thesis using assms(2-4) by (simp add: attempted_def served_as_def)
qed

text \<open>The last callback that reads stock writes the order.\<close>

lemma placing_attempted:
  assumes rel: "reliable e" and l: "writes (attempt l) = []" "filter is_response l = []" "Fdb_commit \<notin> set (attempt l)"
    and c': "no_ctx_ok c'" "no_ol_cnt c' \<le> no_current_ol c'" "same_order c0 c'"
    and body: "no_run e b (reply l) (running_world st c l) = start_stock_reads e (running_world st c' l)"
  shows "attempted st n (no_run e) reply No_on_commit (order_asked c0) (retries l)
      (serve (Suc n) (no_run e) reply (waiting_world st c l b))
    (place_spec (e_byte_order e) (e_time e l) (Some c'))"
proof (cases "sint (no_d_next_o_id c') + 1 < 2 ^ 31")
  case False
  then have "no_run e b (reply l) (running_world st c l) = Inl SignedOverflow"
    using start_stock_reads_overflow [OF _ c'(1) _ c'(2), of "running_world st c' l" e] body by simp
  then show ?thesis
    using False serve_fault [of "no_run e" b reply l st c] by (simp add: place_spec_def attempted_def)
next
  case True
  let ?ws = "new_order_writes (e_byte_order e) c' (e_time e l)"
  let ?l1 = "l @ ?ws @ [Fdb_commit]" let ?l2 = "?l1 @ [Fdb_future_destroy]"
  have 1: "no_run e b (reply l) (running_world st c l) = Inr (registered No_on_commit (running_world st c' ?l1))"
    using start_stock_reads_commit [OF _ c'(1) _ c'(2) True, of "running_world st c' l" e] body
    by (simp add: reliable_async [OF rel])
  have w: "writes ?ws = ?ws" "responses ?ws = 0" "retries ?ws = 0"
    using writes_all [OF new_order_writes_are_writes] retries_writes [OF new_order_writes_are_writes] by simp_all
  then have "filter is_response ?ws = []" "?ws \<noteq> []" by (simp_all add: responses_def) (simp add: new_order_writes_def)
  then show ?thesis
    using True l w(1,3) c'(1,3) serve_continue [where run = "no_run e" and reply = reply and n = n, OF 1]
    by (auto simp: place_spec_def attempted_def intro!: exI [of _ c'] exI [of _ ?l2])
qed

lemma stock_read_served:
  assumes "no_ctx_ok c" and "unat (no_current_ol c) < unat (no_ol_cnt c)" and "writes (attempt l) = []"
    and "filter is_async l \<noteq> []" and "last (filter is_async l) = Fdb_get (stock_key c)"
  shows "no_run e No_on_stock_read (store_reply rows scan l) (running_world st c l) =
    (case row_at sizeof_stock_val rows (stock_key c) of
       None \<Rightarrow> finish_new_order 500 ''stock not found'' (running_world st c l)
     | Some v \<Rightarrow> bindR (stock_left (s_quantity (cast_stock (e_byte_order e) v)) (no_ol_quantity c ! unat (no_current_ol c)))
         (\<lambda>q. start_stock_reads e (running_world st (stock_taken c q) l)))"
proof (cases "row_at sizeof_stock_val rows (stock_key c)")
  case None
  then show ?thesis using assms(3-5) by (simp add: no_on_stock_read_def)
next
  case (Some v)
  have "no_ok No_on_stock_read c" using assms(1,2) by (simp add: no_ok_def word_less_nat_alt)
  from no_on_stock_read_eq [OF _ this, of "running_world st c l" "store_reply rows scan l" v e]
  show ?thesis using Some assms(3-5) by (simp add: stock_left_def bindR_assoc)
qed

text \<open>A line takes its stock: the row is missing, the quantity overflows, or the request goes on with the quantity left.\<close>

lemma stock_line_attempted:
  assumes "no_ctx_ok c" and "unat (no_current_ol c) < unat (no_ol_cnt c)" and "writes (attempt l) = []"
    and "filter is_response l = []" and "Fdb_commit \<notin> set (attempt l)"
    and "filter is_async l \<noteq> []" and "last (filter is_async l) = Fdb_get (stock_key c)"
    and rep: "reply l = store_reply rows scan l"
    and step: "\<And>q. no_run e No_on_stock_read (reply l) (running_world st c l) =
        start_stock_reads e (running_world st (stock_taken c q) l) \<Longrightarrow>
      \<exists>now. attempted st n' (no_run e) reply b' P k (serve (Suc n) (no_run e) reply (waiting_world st c l No_on_stock_read))
        (bindR (stocks_spec (e_byte_order e) rows m (stock_taken c q)) (place_spec (e_byte_order e) now))"
  shows "\<exists>now. attempted st n' (no_run e) reply b' P k (serve (Suc n) (no_run e) reply (waiting_world st c l No_on_stock_read))
    (bindR (stocks_spec (e_byte_order e) rows (Suc m) c) (place_spec (e_byte_order e) now))"
proof -
  note read = stock_read_served [OF assms(1,2,3,6,7), of e rows scan st, folded rep]
  show ?thesis
  proof (cases "row_at sizeof_stock_val rows (stock_key c)")
    case None
    then show ?thesis
      using finish_new_order_served [OF _ assms(3-5), of e No_on_stock_read reply st c "''stock not found''" n' b' P k n] read
      by (simp add: place_spec_def)
  next
    case (Some v)
    show ?thesis
    proof (cases "stock_left (s_quantity (cast_stock (e_byte_order e) v)) (no_ol_quantity c ! unat (no_current_ol c))")
      case (Inl f)
      then show ?thesis
        using Some read serve_fault [of "no_run e" No_on_stock_read reply l st c f n]
        by (simp add: attempted_def)
    next
      case (Inr q)
      then show ?thesis using Some read step [of q] by simp
    qed
  qed
qed

lemma stock_attempted:
  assumes rel: "reliable e"
    and rep: "\<And>l'. retries l' = k \<Longrightarrow> Fdb_commit \<notin> set (attempt l') \<Longrightarrow> reply l' = store_reply rows scan l'"
    and "no_ctx_ok c" and "unat (no_current_ol c) + Suc m = unat (no_ol_cnt c)"
    and "writes (attempt l) = []" and "filter is_response l = []" and "Fdb_commit \<notin> set (attempt l)"
    and "filter is_async l \<noteq> []" and "last (filter is_async l) = Fdb_get (stock_key c)" and "same_order c0 c" and "retries l = k"
  shows "\<exists>now. attempted st n (no_run e) reply No_on_commit (order_asked c0) k
      (serve (Suc (n + m)) (no_run e) reply (waiting_world st c l No_on_stock_read))
    (bindR (stocks_spec (e_byte_order e) rows (Suc m) c) (place_spec (e_byte_order e) now))"
  using assms(3-)
proof (induction m arbitrary: c l)
  case (0 c l)
  have k: "unat (no_current_ol c + 1) = Suc (unat (no_current_ol c))"
    using current_ol_Suc [OF "0.prems"(1)] "0.prems"(2) by simp
  show ?case
  proof (rule stock_line_attempted [where m = 0 and reply = reply, OF "0.prems"(1) _ "0.prems"(3-7) rep [OF "0.prems"(9,5)]])
    fix q assume body: "no_run e No_on_stock_read (reply l) (running_world st c l) =
        start_stock_reads e (running_world st (stock_taken c q) l)"
    have "no_ol_cnt (stock_taken c q) \<le> no_current_ol (stock_taken c q)" "same_order c0 (stock_taken c q)"
      using "0.prems"(2,8) k by (simp_all add: word_le_nat_alt same_order_def)
    from placing_attempted [where reply = reply and n = n, OF rel "0.prems"(3-5) stock_taken_ok [OF "0.prems"(1)] this body] "0.prems"(9)
    show "\<exists>now. attempted st n (no_run e) reply No_on_commit (order_asked c0) k
        (serve (Suc (n + 0)) (no_run e) reply (waiting_world st c l No_on_stock_read))
        (bindR (stocks_spec (e_byte_order e) rows 0 (stock_taken c q)) (place_spec (e_byte_order e) now))"
      by auto
  qed (use "0.prems"(2) in simp)
next
  case (Suc m c l)
  have k: "unat (no_current_ol c + 1) = Suc (unat (no_current_ol c))"
    using current_ol_Suc [OF Suc.prems(1)] Suc.prems(2) by simp
  show ?case
  proof (rule stock_line_attempted [where m = "Suc m" and reply = reply, OF Suc.prems(1) _ Suc.prems(3-7) rep [OF Suc.prems(9,5)]])
    fix q assume body: "no_run e No_on_stock_read (reply l) (running_world st c l) =
        start_stock_reads e (running_world st (stock_taken c q) l)"
    let ?c = "stock_taken c q" let ?l = "l @ [Fdb_get (stock_key ?c)]"
    have "no_current_ol ?c < no_ol_cnt ?c" using Suc.prems(2) k by (simp add: word_less_nat_alt)
    then have "start_stock_reads e (running_world st ?c l) = Inr (registered No_on_stock_read (running_world st ?c ?l))"
      using start_stock_reads_get [OF _ stock_taken_ok [OF Suc.prems(1)], of "running_world st ?c l" q e]
      by (simp add: reliable_async [OF rel] stock_key_def)
    then have "serve (Suc (n + Suc m)) (no_run e) reply (waiting_world st c l No_on_stock_read) =
        serve (Suc (n + m)) (no_run e) reply (waiting_world st ?c (?l @ [Fdb_future_destroy]) No_on_stock_read)"
      using body serve_continue [of "no_run e" No_on_stock_read reply l st c No_on_stock_read ?c ?l "n + Suc m"]
      by simp
    moreover have "\<exists>now. attempted st n (no_run e) reply No_on_commit (order_asked c0) k (serve (Suc (n + m)) (no_run e) reply
          (waiting_world st ?c (?l @ [Fdb_future_destroy]) No_on_stock_read))
        (bindR (stocks_spec (e_byte_order e) rows (Suc m) ?c) (place_spec (e_byte_order e) now))"
      using Suc.prems k by (intro Suc.IH stock_taken_ok) (simp_all add: same_order_def)
    ultimately show "\<exists>now. attempted st n (no_run e) reply No_on_commit (order_asked c0) k (serve (Suc (n + Suc m)) (no_run e) reply
          (waiting_world st c l No_on_stock_read))
        (bindR (stocks_spec (e_byte_order e) rows (Suc m) ?c) (place_spec (e_byte_order e) now))"
      by simp
  qed (use Suc.prems(2) in simp)
qed

lemma new_order_attempted_customer:
  assumes rel: "reliable e" and ok: "no_ctx_ok c" and cnt: "unat (no_ol_cnt c) = N" "N = Suc m" and same: "same_order c0 c"
    and l: "writes (attempt l) = []" "filter is_response l = []" "Fdb_commit \<notin> set (attempt l)"
    and k: "k = key_bytes (KCustomer (no_w_id c) (no_d_id c) (no_c_id c))" and l1: "l1 = l @ [Fdb_get k, Fdb_future_destroy]"
    and rep: "\<And>l'. retries l' = retries l \<Longrightarrow> Fdb_commit \<notin> set (attempt l') \<Longrightarrow> reply l' = store_reply rows scan l'"
  shows "\<exists>now. attempted st n (no_run e) reply No_on_commit (order_asked c0) (retries l)
      (serve (Suc (Suc (n + m))) (no_run e) reply (waiting_world st c l1 No_on_customer_read))
    (case row_at sizeof_customer_val rows k of
       None \<Rightarrow> Inr ([], H2o_send_error_generic 500 ''Error'' ''customer not found'')
     | Some cval \<Rightarrow> bindR (stocks_spec (e_byte_order e) rows N
         (c\<lparr>no_c_discount := c_discount (cast_customer (e_byte_order e) cval), no_current_ol := 0\<rparr>)) (place_spec (e_byte_order e) now))"
proof (cases "row_at sizeof_customer_val rows k")
  case None
  then show ?thesis
    using l rep [of l1] by (auto intro!: finish_new_order_served simp: l1 no_on_customer_read_def)
next
  case (Some cval)
  let ?c = "c\<lparr>no_c_discount := c_discount (cast_customer (e_byte_order e) cval), no_current_ol := 0\<rparr>"
  let ?l2 = "(l1 @ [Fdb_get (stock_key ?c)]) @ [Fdb_future_destroy]"
  have ok': "no_ctx_ok ?c" "same_order c0 ?c" and "no_current_ol ?c < no_ol_cnt ?c"
    using ok same cnt by (simp_all add: no_ctx_ok_def same_order_def word_less_nat_alt)
  then have "no_run e No_on_customer_read (reply l1) (running_world st c l1) =
      Inr (registered No_on_stock_read (running_world st ?c (l1 @ [Fdb_get (stock_key ?c)])))"
    using start_stock_reads_get [OF _ ok'(1), of "running_world st ?c l1" e] Some l rep [of l1]
    by (simp add: l1 no_on_customer_read_def Let_def reliable_async [OF rel] stock_key_def)
  note 1 = serve_continue [where run = "no_run e" and reply = reply and n = "Suc (n + m)", OF this]
  have "\<exists>now. attempted st n (no_run e) reply No_on_commit (order_asked c0) (retries l)
      (serve (Suc (n + m)) (no_run e) reply (waiting_world st ?c ?l2 No_on_stock_read))
    (bindR (stocks_spec (e_byte_order e) rows (Suc m) ?c) (place_spec (e_byte_order e) now))"
    by (rule stock_attempted [where reply = reply, OF rel rep ok'(1)]) (use l cnt ok'(2) in \<open>simp_all add: l1\<close>)
  then show ?thesis using Some 1 cnt(2) by simp
qed

lemma new_order_attempted:
  assumes rel: "reliable e" and ok: "no_ctx_ok c" and pos: "0 < no_ol_cnt c"
    and l: "writes (attempt l) = []" "filter is_response l = []" "Fdb_commit \<notin> set (attempt l)"
    and rep: "\<And>l'. retries l' = retries l \<Longrightarrow> Fdb_commit \<notin> set (attempt l') \<Longrightarrow> reply l' = store_reply rows scan l'"
    and ds: "ds = [] \<or> ds = [Fdb_future_destroy]"
  shows "\<exists>now. attempted st n (no_run e) reply No_on_commit (order_asked c) (retries l)
      (serve (n + (unat (no_ol_cnt c) + 2)) (no_run e) reply
        (waiting_world st c (l @ Fdb_get (key_bytes (KDistrict (no_w_id c) (no_d_id c))) # ds) No_on_district_read))
    (new_order_spec (e_byte_order e) rows c now)"
proof -
  let ?bo = "e_byte_order e" and ?kd = "key_bytes (KDistrict (no_w_id c) (no_d_id c))"
  let ?kc = "key_bytes (KCustomer (no_w_id c) (no_d_id c) (no_c_id c))" and ?l0 = "l @ Fdb_get ?kd # ds"
  obtain m where m: "unat (no_ol_cnt c) = Suc m" using pos by (cases "unat (no_ol_cnt c)") (auto simp: word_less_nat_alt)
  have l0: "writes (attempt ?l0) = []" "filter is_response ?l0 = []" "Fdb_commit \<notin> set (attempt ?l0)" "retries ?l0 = retries l"
    "filter is_async ?l0 \<noteq> [] \<and> last (filter is_async ?l0) = Fdb_get ?kd"
    using l ds by auto
  show ?thesis
  proof (cases "row_at sizeof_district_val rows ?kd")
    case None
    then show ?thesis
      using finish_new_order_served [of e No_on_district_read reply ?l0 st c "''district not found''" _ _ _ _ "n + m + 2"] l0
        rep [of ?l0] m
      by (simp add: new_order_spec_def no_on_district_read_def eval_nat_numeral)
  next
    case (Some dval)
    let ?c = "c\<lparr>no_d_tax := d_tax (cast_district ?bo dval), no_d_next_o_id := d_next_o_id (cast_district ?bo dval)\<rparr>"
    have c: "no_ctx_ok ?c" "same_order c ?c" using ok by (simp_all add: no_ctx_ok_def same_order_def)
    have "no_run e No_on_district_read (reply ?l0) (running_world st c ?l0) =
        Inr (registered No_on_customer_read (running_world st ?c (?l0 @ [Fdb_get ?kc])))"
      using Some l0 rep [of ?l0] by (simp add: no_on_district_read_def Let_def reliable_async [OF rel])
    note 1 = serve_continue [where run = "no_run e" and reply = reply and n = "n + m + 2", OF this]
    have rep0: "reply l' = store_reply rows scan l'" if "retries l' = retries ?l0" "Fdb_commit \<notin> set (attempt l')" for l'
      using rep [of l'] that l0(4) by simp
    from new_order_attempted_customer [where reply = reply and c = ?c and st = st and n = n and N = "unat (no_ol_cnt c)", OF rel c(1) _ m c(2) l0(1-3) refl refl rep0]
    show ?thesis using m Some 1 l0(4) by (simp add: new_order_spec_def eval_nat_numeral)
  qed
qed

interpretation new_order_retried: retried_chain "no_run e" "reliable e" No_on_district_read No_on_commit No_on_error_retry
  "\<lambda>c. key_bytes (KDistrict (no_w_id c) (no_d_id c))" "\<lambda>c. unat (no_ol_cnt c) + 2" "\<lambda>c. no_ctx_ok c \<and> 0 < no_ol_cnt c"
  "\<lambda>c. True" "\<lambda>c c'. same_order c c' \<and> no_ctx_ok c'" "\<lambda>c. c\<lparr>no_current_ol := 0\<rparr>" new_order_ok_response
  "new_order_spec (e_byte_order e)" for e
proof (unfold_locales, goal_cases)
  case (1 c l ds reply rows scan st n)
  then show ?case by (intro new_order_attempted) auto
next
  case (5 r st c l)
  then show ?case by (simp add: no_on_error_retry_def Let_def reliable_async)
next
  case (9 c c')
  then show ?case by (auto simp: same_order_def)
next
  case (10 c c' rows now)
  then show ?case using new_order_spec_same [of c c'] by simp
qed (auto simp: no_on_commit_def new_order_ok_response_def reliable_async same_order_def no_ctx_ok_def
    intro: new_order_spec_writing)

text \<open>From the entry point on.\<close>

lemma new_order_begun:
  assumes "serving e st"
  shows "new_order_begin e (fresh_world st c) = Inr (waiting_world (counted st) c
    [Fdb_create_transaction, Fdb_get (key_bytes (KDistrict (no_w_id c) (no_d_id c)))] No_on_district_read)"
  using assms
  by (simp add: serving_def new_order_begin_def begin_request_begun reliable_async registered_begun)

lemma new_order_request_served:
  assumes "serving e st" and "no_ctx_ok c" and "0 < no_ol_cnt c"
  shows "\<exists>now. served_as (counted st)
    (serve_request (new_order_begin e) (no_run e) (unat (no_ol_cnt c) + 3) (store_reply rows scan) st c)
    (new_order_spec (e_byte_order e) rows c now)"
  using new_order_retried.begun_served [where start = "new_order_begin e" and c = c and e = e and rows = rows and scan = scan,
      OF _ _ new_order_begun [OF assms(1)]] assms
  by (simp add: serving_def eval_nat_numeral)

lemmas new_order_begun_retried =
  new_order_retried.begun_retried [where start = "new_order_begin e" and e = e for e]
  new_order_retried.begun_retried_outcome [where start = "new_order_begin e" and e = e for e]

lemma new_order_request_retried:
  assumes "serving e st" and "\<And>j. errs j \<noteq> 0" and "no_ctx_ok c" and "0 < no_ol_cnt c"
    and n_def: "n = k * (unat (no_ol_cnt c) + 4) + unat (no_ol_cnt c) + 3"
  shows "\<exists>j c' now. (same_order c c' \<and> no_ctx_ok c') \<and>
      (j = k \<or> j < k \<and> \<not> writing (new_order_spec (e_byte_order e) (rows j) c' now)) \<and>
      served_as (counted st) (serve_request (new_order_begin e) (no_run e) n (contended_reply rows scan errs k) st c)
        (new_order_spec (e_byte_order e) (rows j) c' now)"
    and "(\<And>j. j < k \<Longrightarrow> writing (new_order_spec (e_byte_order e) (rows j) c now)) \<Longrightarrow>
      \<exists>now. served_as (counted st) (serve_request (new_order_begin e) (no_run e) n (contended_reply rows scan errs k) st c)
        (new_order_spec (e_byte_order e) (rows k) c now)"
proof -
  have n: "n = k * (unat (no_ol_cnt c) + 2 + 2) + (unat (no_ol_cnt c) + 2) + 1" by (simp add: n_def algebra_simps)
  show "\<exists>j c' now. (same_order c c' \<and> no_ctx_ok c') \<and>
      (j = k \<or> j < k \<and> \<not> writing (new_order_spec (e_byte_order e) (rows j) c' now)) \<and>
      served_as (counted st) (serve_request (new_order_begin e) (no_run e) n (contended_reply rows scan errs k) st c)
        (new_order_spec (e_byte_order e) (rows j) c' now)"
    unfolding n by (rule new_order_begun_retried(2) [where c = c, OF _ assms(2) _ new_order_begun [OF assms(1)]])
      (use assms in \<open>simp_all add: serving_def\<close>)
  show "\<exists>now. served_as (counted st) (serve_request (new_order_begin e) (no_run e) n (contended_reply rows scan errs k) st c)
        (new_order_spec (e_byte_order e) (rows k) c now)"
    if "\<And>j. j < k \<Longrightarrow> writing (new_order_spec (e_byte_order e) (rows j) c now)"
    unfolding n by (rule new_order_begun_retried(1) [where c = c, OF _ assms(2) _ new_order_begun [OF assms(1)] _ that])
      (use assms in \<open>simp_all add: serving_def\<close>)
qed

lemma new_order_begin_shaped: "allR (shaped no_tables) (new_order_begin e (fresh_world st c))"
  unfolding new_order_begin_def
  by (rule shaped_begin) (auto simp: fresh_world_def shaped_def intro!: shaped_intros)

lemma new_order_begin_outcome:
  assumes "fresh_request st c w" and "no_ctx_ok c"
  shows "\<exists>w'. new_order_begin e w = Inr w' \<and> request_state no_ok (reliable e) w'"
  unfolding new_order_begin_def using assms(2)
  by (intro begin_request_outcome [OF assms(1)])
    (auto intro!: async_outcomes(1) simp: no_ok_def)

section \<open>Properties\<close>

definition example_order :: new_order_ctx where
  "example_order = zero_new_order_ctx\<lparr>no_w_id := 1, no_d_id := 2, no_c_id := 3, no_ol_cnt := 1,
     no_ol_supply_w := 1 # replicate 14 0, no_ol_i_id := 77 # replicate 14 0, no_ol_quantity := 4 # replicate 14 0\<rparr>"

lemma example_order_simps [simp]:
  "no_ctx_ok example_order" "no_ol_cnt example_order = 1" "no_ol_quantity example_order ! 0 = 4"
  "no_w_id example_order = 1" "no_d_id example_order = 2"
  by (simp_all add: example_order_def zero_new_order_ctx_def no_ctx_ok_def)

text \<open>
  C10. A NewOrder request, whatever the database and the environment answer and in whatever order
  retries happen: its first call returns, and in every state it reaches at most one response
  has been sent, the context and the transaction are released exactly with the response,
  no future or wrapper leaks, and no callback touches freed memory or runs outside its arrays;
  the only fault a hostile row can cause is a signed overflow.
\<close>

theorem new_order_request_safe:
  assumes "fresh_request st c w0" and "no_ctx_ok c"
  shows "\<exists>w1. new_order_begin e w0 = Inr w1 \<and>
    (\<forall>w. (chain_step (no_run e))\<^sup>*\<^sup>* w1 w \<longrightarrow> request_safe (no_run e) (reliable e) {SignedOverflow} w)"
  using new_order_begin_outcome [OF assms] new_order.reachable_safe by blast

theorem new_order_request_safe_witness:
  "\<exists>w1. new_order_begin sunny_env (fresh_world sunny_state example_order) = Inr w1 \<and>
     request_safe (no_run sunny_env) True {SignedOverflow} w1"
proof -
  have "fresh_request sunny_state example_order (fresh_world sunny_state example_order :: no_world)"
    by (rule fresh_world_request) simp
  from new_order_request_safe [OF this, of sunny_env] show ?thesis
    by auto
qed

text \<open>
  A NewOrder whose reads find their rows and whose commit succeeds writes exactly one order: the
  order row, the undelivered marker, one line per item with its amount, the next order
  number, and each item's stock row with the quantity taken and replenished; it answers with the
  order number and releases the request. The order number is the district's \<open>d_next_o_id\<close>.
\<close>

lemma new_order_places_order:
  assumes "reliable e" and "e_create e [Fdb_create_transaction] = 0" and "db st \<noteq> None"
    and "no_ctx_ok c" and "length vals = unat (no_ol_cnt c)" and "vals \<noteq> []"
    and "sizeof_district_val \<le> length dval" and "sizeof_customer_val \<le> length cval"
    and "list_all (stock_row_ok (e_byte_order e)) vals"
    and "sint (d_next_o_id (cast_district (e_byte_order e) dval)) + 1 < 2 ^ 31"
  shows "\<exists>w now. bindR (new_order_begin e (fresh_world st c))
      (run_chain (no_run e) (row_reply dval # row_reply cval # map row_reply vals @ [ok_reply])) = Inr w \<and>
    finished w \<and>
    writes (log w) = new_order_writes (e_byte_order e) (placed_order (e_byte_order e) c dval vals) now \<and>
    filter is_response (log w) = [H2o_send_inline (Yajl [Map_open, Jstring (c_str ''status''), Jstring (c_str ''ok''),
      Jstring (c_str ''o_id''), Jinteger (sint (d_next_o_id (cast_district (e_byte_order e) dval))), Map_close])]"
proof -
  let ?st = "Some (st\<lparr>active_transactions := active_transactions st + 1\<rparr>)"
  let ?l = "[Fdb_create_transaction, Fdb_get (key_bytes (KDistrict (no_w_id c) (no_d_id c)))]"
  have b: "new_order_begin e (fresh_world st c) = Inr (waiting_world ?st c ?l No_on_district_read)"
    using assms(1)
    by (simp add: new_order_begin_def begin_request_begun [OF assms(3,2)] reliable_async registered_begun
       )
  obtain l' now where r: "run_chain (no_run e) (row_reply dval # row_reply cval # map row_reply vals @ [ok_reply])
      (waiting_world ?st c ?l No_on_district_read) = Inr (finished_world ?st (l' @ [H2o_send_inline (Yajl
        [Map_open, Jstring (c_str ''status''), Jstring (c_str ''ok''), Jstring (c_str ''o_id''),
         Jinteger (sint (d_next_o_id (cast_district (e_byte_order e) dval))), Map_close]),
        Fdb_transaction_destroy, Fdb_future_destroy]))"
      "writes l' = writes ?l @ new_order_writes (e_byte_order e) (placed_order (e_byte_order e) c dval vals) now"
      "responses l' = responses ?l"
    using new_order_run [OF assms(1,4-10)] by blast
  have "filter is_response l' = []"
    using r(3) by (simp add: responses_def)
  then show ?thesis
    using b r(1,2) by (auto simp: finished_def finished_world_def responses_def simp del: run_chain.simps)
qed

text \<open>
  The next order number advances only in the separate counter row: a NewOrder's writes set
  the counter to one more than the number used, but leave every district row as it was, and the
  district row is where the next NewOrder takes its number from.
\<close>

lemma new_order_never_advances_district:
  "apply_writes (new_order_writes bo c now) s (key_bytes (KDistrict w d)) = s (key_bytes (KDistrict w d)) \<and>
   apply_writes (new_order_writes bo c now) s (key_bytes (KNextOId (no_w_id c) (no_d_id c))) =
     Some (be_bytes 8 (scast (no_d_next_o_id c + 1) :: i64))"
proof
  have "Fdb_set (key_bytes (KDistrict w d)) v \<notin> set (new_order_writes bo c now)" for v
    using key_bytes_inj by (auto simp: new_order_writes_def oorder_set_def order_line_set_def stock_set_def)
  then show "apply_writes (new_order_writes bo c now) s (key_bytes (KDistrict w d)) = s (key_bytes (KDistrict w d))"
    by (rule apply_writes_other)
  have "apply_writes (map (stock_set bo c) is) t (key_bytes (KNextOId w d)) = t (key_bytes (KNextOId w d))" for "is" t w d
    using key_bytes_inj by (intro apply_writes_other) (auto simp: stock_set_def)
  then show "apply_writes (new_order_writes bo c now) s (key_bytes (KNextOId (no_w_id c) (no_d_id c))) =
      Some (be_bytes 8 (scast (no_d_next_o_id c + 1) :: i64))"
    by (simp add: new_order_writes_def)
qed

text \<open>
  A stock quantity between 10 and 100 stays between 10 and 100 under every order of one to ten
  pieces, so the arithmetic of the stock callback never overflows on a loaded database.
\<close>

lemma restock_keeps_range:
  assumes "10 \<le> sint s" and "sint s \<le> 100" and "1 \<le> q" and "q \<le> 10"
  shows "10 \<le> sint (restock s q) \<and> sint (restock s q) \<le> 100 \<and>
    (schk (sint s - uint q) :: i32 result) = Inr (s - ucast q)"
proof -
  have "1 \<le> uint q" "uint q \<le> 10" using assms(3,4) by (simp_all add: word_le_def)
  then show ?thesis
    using restock_sint(2,3) [of s q] assms(1,2) by (simp add: stock_in_range_def)
qed

text \<open>
  The entry point of NewOrder never gets as far as its transaction: it draws the warehouse with
  \<open>get_random_number(0, &seed)\<close>, whose remainder by zero traps, so every request for which
  the context could be allocated ends there.
\<close>

lemma new_order_always_traps:
  "tpcc_new_order_execute e seed w =
     (if e_calloc e (log w) then Inl DivByZero
      else Inr (emit (H2o_send_error_503 ''Service Unavailable'' ''out of memory'') w))"
  by (simp add: tpcc_new_order_execute_def draw_new_order_def get_random_number_zero)

end
