(* ===== verification/Payment.thy ===== *)
theory Payment
  imports Served_Requests
begin

text \<open>
  The Payment transaction of \<open>src/handlers/tpcc_payment.h\<close> and \<open>src/handlers/tpcc_payment.c\<close>: the
  context, the five callbacks, the entry point. Like NewOrder, the chain is an instance of
  \<open>callback_chain\<close>.
\<close>

section \<open>Context\<close>

record payment_ctx =
  pay_seed :: u32
  pay_w_id :: u32
  pay_d_id :: u32
  pay_c_w_id :: u32
  pay_c_d_id :: u32
  pay_c_id :: u32
  pay_c_last :: bytes
  pay_by_name :: bool
  pay_h_amount :: i32
  pay_w_ytd :: i64
  pay_d_ytd :: i64
  pay_c_balance :: i64
  pay_c_payment_cnt :: i16

definition zero_payment_ctx :: payment_ctx where
  "zero_payment_ctx = \<lparr>pay_seed = 0, pay_w_id = 0, pay_d_id = 0, pay_c_w_id = 0, pay_c_d_id = 0, pay_c_id = 0,
     pay_c_last = replicate 16 0, pay_by_name = False, pay_h_amount = 0, pay_w_ytd = 0, pay_d_ytd = 0,
     pay_c_balance = 0, pay_c_payment_cnt = 0\<rparr>"

datatype pay_cb =
    Pay_on_warehouse_read
  | Pay_on_district_read
  | Pay_on_customer_read
  | Pay_on_commit
  | Pay_on_error_retry

type_synonym pay_world = "(payment_ctx, pay_cb) world"

section \<open>Callbacks\<close>

definition finish_payment :: "i32 \<Rightarrow> string \<Rightarrow> pay_world \<Rightarrow> pay_world result" where
  "finish_payment status msg w = with_ctx w (\<lambda>c.
     release (emit (if status = 200 then H2o_send_inline (Raw (c_str msg))
                    else H2o_send_error_generic status ''Error'' msg) w))"

definition pay_on_warehouse_read :: "env \<Rightarrow> fdb_reply \<Rightarrow> pay_world \<Rightarrow> pay_world result" where
  "pay_on_warehouse_read e future w = with_ctx w (\<lambda>c.
     if r_error future \<noteq> 0
     then ignore_rc (fdb_handle_error e (r_error future) Pay_on_error_retry w)
     else case value_of_size sizeof_warehouse_val future of
            None \<Rightarrow> finish_payment 500 ''warehouse not found'' w
          | Some val \<Rightarrow>
              let c = c\<lparr>pay_w_ytd := w_ytd (cast_warehouse (e_byte_order e) val)\<rparr>
              in bindR (key64 (\<lambda>b. kv_district_key b (pay_c_w_id c) (pay_c_d_id c))) (\<lambda>dkey.
                   ignore_rc (fdb_async_get e dkey Pay_on_district_read (w\<lparr>ctx := Some c\<rparr>))))"

definition pay_on_district_read :: "env \<Rightarrow> fdb_reply \<Rightarrow> pay_world \<Rightarrow> pay_world result" where
  "pay_on_district_read e future w = with_ctx w (\<lambda>c.
     if r_error future \<noteq> 0
     then ignore_rc (fdb_handle_error e (r_error future) Pay_on_error_retry w)
     else case value_of_size sizeof_district_val future of
            None \<Rightarrow> finish_payment 500 ''district not found'' w
          | Some val \<Rightarrow>
              let c = c\<lparr>pay_d_ytd := d_ytd (cast_district (e_byte_order e) val)\<rparr>
              in bindR (if pay_by_name c
                        then bindR (get_random_number (e_rand_r e) (CUSTOMERS_PER_DISTRICT - 1) (pay_seed c))
                               (\<lambda>(r, seed). Inr (c\<lparr>pay_c_id := 1 + r, pay_seed := seed\<rparr>))
                        else Inr c) (\<lambda>c.
                 bindR (key64 (\<lambda>b. kv_customer_key b (pay_c_w_id c) (pay_c_d_id c) (pay_c_id c))) (\<lambda>ckey.
                   ignore_rc (fdb_async_get e ckey Pay_on_customer_read (w\<lparr>ctx := Some c\<rparr>)))))"

text \<open>
  The writes. The customer's payment count is incremented as an \<open>int\<close> and stored in sixteen bits; the sums
  of 64-bit amounts are signed.
\<close>

definition pay_on_customer_read :: "env \<Rightarrow> fdb_reply \<Rightarrow> pay_world \<Rightarrow> pay_world result" where
  "pay_on_customer_read e future w = with_ctx w (\<lambda>c.
     if r_error future \<noteq> 0
     then ignore_rc (fdb_handle_error e (r_error future) Pay_on_error_retry w)
     else case value_of_size sizeof_customer_val future of
            None \<Rightarrow> finish_payment 500 ''customer not found'' w
          | Some val \<Rightarrow>
              let cv = cast_customer (e_byte_order e) val; bo = e_byte_order e;
                  c = c\<lparr>pay_c_balance := c_balance cv, pay_c_payment_cnt := c_payment_cnt cv\<rparr>;
                  w = w\<lparr>ctx := Some c\<rparr>; now = e_time e (log w)
              in bindR (key64 (\<lambda>b. kv_warehouse_key b (pay_w_id c))) (\<lambda>wkey.
                 bindR (schk (sint (pay_w_ytd c) + sint (pay_h_amount c))) (\<lambda>ytd.
                 bindR (fdb_sync_set wkey (warehouse_bytes bo (zero_warehouse\<lparr>w_ytd := ytd\<rparr>)) w) (\<lambda>w.
                 bindR (key64 (\<lambda>b. kv_district_key b (pay_c_w_id c) (pay_c_d_id c))) (\<lambda>dkey.
                 bindR (schk (sint (pay_d_ytd c) + sint (pay_h_amount c))) (\<lambda>ytd.
                 bindR (fdb_sync_set dkey (district_bytes bo (zero_district\<lparr>d_ytd := ytd\<rparr>)) w) (\<lambda>w.
                 bindR (key64 (\<lambda>b. kv_customer_key b (pay_c_w_id c) (pay_c_d_id c) (pay_c_id c))) (\<lambda>ckey.
                 bindR (schk (sint (pay_c_balance c) - sint (pay_h_amount c))) (\<lambda>balance.
                 bindR (schk (sint (c_ytd_payment cv) + sint (pay_h_amount c))) (\<lambda>ytd_payment.
                 bindR (fdb_sync_set ckey (customer_bytes bo
                   (zero_customer\<lparr>c_balance := balance, c_ytd_payment := ytd_payment,
                                  c_payment_cnt := pay_c_payment_cnt c + 1\<rparr>)) w) (\<lambda>w.
                 bindR (key128 (\<lambda>b. kv_history_key b (pay_w_id c) (pay_c_w_id c) (pay_c_d_id c) (pay_c_id c) now)) (\<lambda>hkey.
                 bindR (fdb_sync_set hkey (history_bytes bo
                   \<lparr>h_date = now, h_amount = pay_h_amount c, h_data = replicate 24 0\<rparr>) w) (\<lambda>w.
                   ignore_rc (fdb_async_commit e Pay_on_commit w))))))))))))))"

definition pay_on_commit :: "env \<Rightarrow> fdb_reply \<Rightarrow> pay_world \<Rightarrow> pay_world result" where
  "pay_on_commit e future w = with_ctx w (\<lambda>c.
     if r_error future \<noteq> 0
     then ignore_rc (fdb_handle_error e (r_error future) Pay_on_error_retry w)
     else release (emit (H2o_send_inline (Yajl
            [Map_open, Jstring (c_str ''status''), Jstring (c_str ''ok''), Jstring (c_str ''amount''),
             Jinteger (sint (pay_h_amount c)), Map_close])) w))"

definition pay_on_error_retry :: "env \<Rightarrow> fdb_reply \<Rightarrow> pay_world \<Rightarrow> pay_world result" where
  "pay_on_error_retry e future w = with_ctx w (\<lambda>c.
     if r_error future \<noteq> 0
     then finish_payment 503 ''transaction retry exhausted'' w
     else bindR (key64 (\<lambda>b. kv_warehouse_key b (pay_w_id c))) (\<lambda>wkey.
            ignore_rc (fdb_async_get e wkey Pay_on_warehouse_read w)))"

fun pay_run :: "env \<Rightarrow> pay_cb \<Rightarrow> fdb_reply \<Rightarrow> pay_world \<Rightarrow> pay_world result" where
  "pay_run e Pay_on_warehouse_read r w = pay_on_warehouse_read e r w"
| "pay_run e Pay_on_district_read r w = pay_on_district_read e r w"
| "pay_run e Pay_on_customer_read r w = pay_on_customer_read e r w"
| "pay_run e Pay_on_commit r w = pay_on_commit e r w"
| "pay_run e Pay_on_error_retry r w = pay_on_error_retry e r w"

section \<open>Entry point\<close>

definition draw_payment :: "rng \<Rightarrow> u32 \<Rightarrow> payment_ctx \<Rightarrow> payment_ctx result" where
  "draw_payment rand_r seed c =
     (let c = c\<lparr>pay_w_id := 1\<rparr>
      in bindR (get_random_number rand_r (DISTRICTS_PER_WAREHOUSE - 1) seed) (\<lambda>(r, seed).
      let c = c\<lparr>pay_d_id := 1 + r\<rparr>
      in bindR (get_random_number rand_r 99 seed) (\<lambda>(r, seed).
         bindR (if r < 15
                then bindR (get_random_number rand_r 0 seed) (\<lambda>(r, seed).
                     let c_w_id = 1 + r
                     in Inr (if c_w_id = pay_w_id c then 2 else c_w_id, seed))
                else Inr (pay_w_id c, seed)) (\<lambda>(c_w_id, seed).
      let c = c\<lparr>pay_c_w_id := c_w_id\<rparr>
      in bindR (get_random_number rand_r (DISTRICTS_PER_WAREHOUSE - 1) seed) (\<lambda>(r, seed).
      let c = c\<lparr>pay_c_d_id := 1 + r\<rparr>
      in bindR (get_random_number rand_r 99 seed) (\<lambda>(r, seed).
      let c = c\<lparr>pay_by_name := (r < 40)\<rparr>
      in bindR (if pay_by_name c
                then let (r, seed) = rand_r seed
                     in bindR (umod r (NURAND_C_LAST_A + 1)) (\<lambda>C.
                        bindR (nurand rand_r NURAND_C_LAST_A 0 999 seed C) (\<lambda>(n, seed).
                        bindR (gen_c_last n (pay_c_last c)) (\<lambda>last.
                          Inr (c\<lparr>pay_c_last := last\<rparr>, seed))))
                else bindR (nurand rand_r NURAND_C_ID_A 1 CUSTOMERS_PER_DISTRICT seed 0) (\<lambda>(c_id, seed).
                       Inr (c\<lparr>pay_c_id := c_id\<rparr>, seed))) (\<lambda>(c, seed).
         bindR (get_random_number rand_r 4999 seed) (\<lambda>(r, seed).
           Inr (c\<lparr>pay_h_amount := 100 + r * 100\<rparr>)))))))))"

definition payment_begin :: "env \<Rightarrow> pay_world \<Rightarrow> pay_world result" where
  "payment_begin e = begin_request ''fdb transaction failed'' (\<lambda>w. with_ctx w (\<lambda>c.
     bindR (key64 (\<lambda>b. kv_warehouse_key b (pay_w_id c))) (\<lambda>wkey.
       ignore_rc (fdb_async_get e wkey Pay_on_warehouse_read w)))) e"

definition tpcc_payment_execute :: "env \<Rightarrow> u32 \<Rightarrow> pay_world \<Rightarrow> pay_world result" where
  "tpcc_payment_execute e seed w =
     (if \<not> e_calloc e (log w)
      then Inr (emit (H2o_send_error_503 ''Service Unavailable'' ''out of memory'') w)
      else bindR (draw_payment (e_rand_r e) seed (zero_payment_ctx\<lparr>pay_seed := seed\<rparr>)) (\<lambda>c.
             payment_begin e (w\<lparr>ctx := Some c\<rparr>)))"

section \<open>The writes of a payment\<close>

text \<open>The amounts fit the 64-bit sums.\<close>

definition payment_in_range :: "payment_ctx \<Rightarrow> customer_val \<Rightarrow> bool" where
  "payment_in_range c cv \<longleftrightarrow>
     (\<forall>v \<in> {sint (pay_w_ytd c) + sint (pay_h_amount c), sint (pay_d_ytd c) + sint (pay_h_amount c),
            sint (c_balance cv) - sint (pay_h_amount c), sint (c_ytd_payment cv) + sint (pay_h_amount c)}.
        - (2 ^ 63) \<le> v \<and> v < 2 ^ 63)"

definition payment_writes :: "byte_order \<Rightarrow> payment_ctx \<Rightarrow> customer_val \<Rightarrow> i64 \<Rightarrow> call list" where
  "payment_writes bo c cv now =
     [Fdb_set (key_bytes (KWarehouse (pay_w_id c)))
        (warehouse_bytes bo (zero_warehouse\<lparr>w_ytd := pay_w_ytd c + scast (pay_h_amount c)\<rparr>)),
      Fdb_set (key_bytes (KDistrict (pay_c_w_id c) (pay_c_d_id c)))
        (district_bytes bo (zero_district\<lparr>d_ytd := pay_d_ytd c + scast (pay_h_amount c)\<rparr>)),
      Fdb_set (key_bytes (KCustomer (pay_c_w_id c) (pay_c_d_id c) (pay_c_id c)))
        (customer_bytes bo (zero_customer\<lparr>c_balance := c_balance cv - scast (pay_h_amount c),
           c_ytd_payment := c_ytd_payment cv + scast (pay_h_amount c), c_payment_cnt := c_payment_cnt cv + 1\<rparr>)),
      Fdb_set (key_bytes (KHistory (pay_w_id c) (pay_c_w_id c) (pay_c_d_id c) (pay_c_id c) (ucast now)))
        (history_bytes bo \<lparr>h_date = now, h_amount = pay_h_amount c, h_data = replicate 24 0\<rparr>)]"

text \<open>The context after the customer row has been read.\<close>

definition customer_taken :: "payment_ctx \<Rightarrow> customer_val \<Rightarrow> payment_ctx" where
  "customer_taken c cv = c\<lparr>pay_c_balance := c_balance cv, pay_c_payment_cnt := c_payment_cnt cv\<rparr>"

lemma schk_scast:
  fixes a :: i64 and b :: i32
  shows "- (2 ^ 63) \<le> sint a + sint b \<Longrightarrow> sint a + sint b < 2 ^ 63 \<Longrightarrow> schk (sint a + sint b) = Inr (a + scast b)"
    and "- (2 ^ 63) \<le> sint a - sint b \<Longrightarrow> sint a - sint b < 2 ^ 63 \<Longrightarrow> schk (sint a - sint b) = Inr (a - scast b)"
  by (simp_all add: schk_def)

lemma pay_on_customer_read_eq:
  assumes "ctx w = Some c" and "tr w" and "r_error r = 0" and "value_of_size sizeof_customer_val r = Some val"
    and "cast_customer (e_byte_order e) val = cv" and "payment_in_range c cv"
  shows "pay_on_customer_read e r w = ignore_rc (fdb_async_commit e Pay_on_commit
    (emits (payment_writes (e_byte_order e) c cv (e_time e (log w))) (w\<lparr>ctx := Some (customer_taken c cv)\<rparr>)))"
  using assms
  by (simp add: pay_on_customer_read_def Let_def payment_in_range_def schk_scast payment_writes_def emits_emit
      customer_taken_def)

section \<open>Payment as a callback chain\<close>

definition pay_ok :: "pay_cb \<Rightarrow> payment_ctx \<Rightarrow> bool" where
  "pay_ok b c \<longleftrightarrow> True"

lemma finish_payment_outcome:
  assumes "ctx w = Some c" and "tr w" and "responses (log w) = 0"
  shows "good_outcome ok rel faults w (finish_payment status msg w)"
  using assms by (auto simp: finish_payment_def intro!: release_outcome)

lemma pay_on_customer_read_outcome:
  assumes "ctx w = Some c" and "tr w" and "responses (log w) = 0" and "r_error r = 0"
    and "value_of_size sizeof_customer_val r = Some val"
  shows "good_outcome pay_ok (reliable e) {SignedOverflow} w (pay_on_customer_read e r w)"
  using assms
  by (auto simp: pay_on_customer_read_def Let_def pay_ok_def quiet_def
      intro!: good_outcome_bind_schk async_outcomes(3))

lemma pay_run_outcome:
  assumes "alive pay_ok b w"
  shows "good_outcome pay_ok (reliable e) {SignedOverflow} w (pay_run e b r w)"
proof -
  obtain c where c: "ctx w = Some c" "tr w" "responses (log w) = 0"
    using assms by (auto simp: alive_def)
  have fail: "good_outcome pay_ok (reliable e) {SignedOverflow} w (ignore_rc (fdb_handle_error e err Pay_on_error_retry w))"
      "good_outcome pay_ok (reliable e) {SignedOverflow} w (finish_payment status msg w)" for err status msg
    using c finish_payment_outcome by (auto intro!: async_outcomes(4) simp: pay_ok_def)
  show ?thesis
  proof (cases b)
    case Pay_on_warehouse_read
    then show ?thesis
      using c fail by (auto simp: pay_on_warehouse_read_def Let_def pay_ok_def intro!: async_outcomes(1) split: option.splits)
  next
    case Pay_on_district_read
    then show ?thesis
      using c fail
      by (auto simp: pay_on_district_read_def Let_def pay_ok_def get_random_number_eq tpcc_constants
          intro!: async_outcomes(1) split: option.splits)
  next
    case Pay_on_customer_read
    then show ?thesis
      using pay_on_customer_read_outcome [OF c, of r] c fail
      by (cases "r_error r = 0"; cases "value_of_size sizeof_customer_val r") (auto simp: pay_on_customer_read_def)
  next
    case Pay_on_commit
    then show ?thesis
      using c fail by (auto simp: pay_on_commit_def intro!: release_outcome)
  next
    case Pay_on_error_retry
    then show ?thesis
      using c fail by (auto simp: pay_on_error_retry_def pay_ok_def intro!: async_outcomes(1))
  qed
qed

interpretation payment: callback_chain "pay_run e" pay_ok "reliable e" "{SignedOverflow}" for e
  by unfold_locales (rule pay_run_outcome)

lemma payment_begin_outcome:
  assumes "fresh_request st c w"
  shows "\<exists>w'. payment_begin e w = Inr w' \<and> request_state pay_ok (reliable e) w'"
  unfolding payment_begin_def
  by (intro begin_request_outcome [OF assms]) (auto intro!: async_outcomes(1) simp: pay_ok_def)

text \<open>Every callback leads to the next one of the chain, or with an error to a retry, which starts from the warehouse.\<close>

fun pay_rank :: "pay_cb \<Rightarrow> payment_ctx \<Rightarrow> nat" where
  "pay_rank Pay_on_error_retry c = 5"
| "pay_rank Pay_on_warehouse_read c = 4"
| "pay_rank Pay_on_district_read c = 3"
| "pay_rank Pay_on_customer_read c = 2"
| "pay_rank Pay_on_commit c = 1"

abbreviation pay_restart :: "payment_ctx \<Rightarrow> nat" where "pay_restart c \<equiv> 6"

lemma pay_run_ranked:
  assumes "alive pay_ok b w" and "ctx w = Some c"
  shows "ranked pay_rank pay_restart r c (pay_rank b c) w (pay_run e b r w)"
proof -
  have "tr w" using assms(1) by (auto simp: alive_def)
  then show ?thesis
    using assms(2)
    by (cases b) (auto simp: pay_on_warehouse_read_def pay_on_district_read_def pay_on_customer_read_def pay_on_commit_def
        pay_on_error_retry_def finish_payment_def Let_def get_random_number_eq tpcc_constants
        intro!: ranked_intros split: option.split)
qed

interpretation payment_ranked: ranked_chain "pay_run e" pay_ok "reliable e" "{SignedOverflow}" pay_rank pay_restart for e
  using pay_run_ranked by unfold_locales (auto simp: ranked_def)

text \<open>The tables a Payment writes.\<close>

fun pay_tables :: "tkey \<Rightarrow> bool" where
  "pay_tables (KWarehouse _) = True"
| "pay_tables (KDistrict _ _) = True"
| "pay_tables (KCustomer _ _ _) = True"
| "pay_tables (KHistory _ _ _ _ _) = True"
| "pay_tables _ = False"

interpretation payment_shaping: shaping_chain "pay_run e" pay_tables for e
proof unfold_locales
  fix b r w w' assume "pay_run e b r w = Inr w'" "shaped pay_tables w"
  moreover have "shaped pay_tables w \<Longrightarrow> allR (shaped pay_tables) (pay_run e b r w)"
    by (cases b) (auto simp: pay_on_warehouse_read_def pay_on_district_read_def pay_on_customer_read_def pay_on_commit_def
        pay_on_error_retry_def finish_payment_def Let_def get_random_number_eq tpcc_constants row_wf_defs row_zero_defs
        intro!: shaped_intros tpcc_row split: option.split)
  ultimately show "shaped pay_tables w'" by (simp add: allR_def)
qed

section \<open>A payment that succeeds\<close>

text \<open>The context when the customer row arrives.\<close>

definition paying :: "env \<Rightarrow> payment_ctx \<Rightarrow> bytes \<Rightarrow> bytes \<Rightarrow> payment_ctx" where
  "paying e c wval dval =
     (let c = c\<lparr>pay_w_ytd := w_ytd (cast_warehouse (e_byte_order e) wval),
                pay_d_ytd := d_ytd (cast_district (e_byte_order e) dval)\<rparr>;
          (r, seed) = e_rand_r e (pay_seed c)
      in if pay_by_name c then c\<lparr>pay_c_id := 1 + (r mod 2999 + 1), pay_seed := seed\<rparr> else c)"

lemma payment_run:
  assumes rel: "reliable e"
    and rows: "sizeof_warehouse_val \<le> length wval" "sizeof_district_val \<le> length dval" "sizeof_customer_val \<le> length cval"
    and range: "payment_in_range (paying e c wval dval) (cast_customer (e_byte_order e) cval)"
  shows "\<exists>l' now. run_chain (pay_run e) [row_reply wval, row_reply dval, row_reply cval, ok_reply]
      (waiting_world st c l Pay_on_warehouse_read) = Inr (finished_world st (l' @ [H2o_send_inline (Yajl
        [Map_open, Jstring (c_str ''status''), Jstring (c_str ''ok''), Jstring (c_str ''amount''),
         Jinteger (sint (pay_h_amount c)), Map_close]), Fdb_transaction_destroy, Fdb_future_destroy])) \<and>
    writes l' = writes l @ payment_writes (e_byte_order e) (paying e c wval dval) (cast_customer (e_byte_order e) cval) now \<and>
    responses l' = responses l"
proof -
  let ?bo = "e_byte_order e" and ?cv = "cast_customer (e_byte_order e) cval"
  let ?c1 = "c\<lparr>pay_w_ytd := w_ytd (cast_warehouse ?bo wval)\<rparr>" and ?c2 = "paying e c wval dval"
  let ?c3 = "customer_taken ?c2 ?cv"
  let ?l1 = "l @ [Fdb_get (key_bytes (KDistrict (pay_c_w_id c) (pay_c_d_id c)))]"
  let ?l2 = "(?l1 @ [Fdb_future_destroy]) @ [Fdb_get (key_bytes (KCustomer (pay_c_w_id c) (pay_c_d_id c) (pay_c_id ?c2)))]"
  let ?m2 = "?l2 @ [Fdb_future_destroy]"
  let ?l3 = "?m2 @ payment_writes ?bo ?c2 ?cv (e_time e ?m2) @ [Fdb_commit]"
  have ids: "pay_c_w_id ?c2 = pay_c_w_id c" "pay_c_d_id ?c2 = pay_c_d_id c" "pay_h_amount ?c2 = pay_h_amount c"
    by (simp_all add: paying_def Let_def split: prod.splits)
  have 1: "pay_run e Pay_on_warehouse_read (row_reply wval) (running_world st c l) =
      Inr (registered Pay_on_district_read (running_world st ?c1 ?l1))"
    using rows(1) by (simp add: pay_on_warehouse_read_def Let_def reliable_async [OF rel])
  have 2: "pay_run e Pay_on_district_read (row_reply dval) (running_world st ?c1 (?l1 @ [Fdb_future_destroy])) =
      Inr (registered Pay_on_customer_read (running_world st ?c2 ?l2))"
    using rows(2)
    by (simp add: pay_on_district_read_def Let_def reliable_async [OF rel] get_random_number_eq tpcc_constants
        paying_def split: prod.splits)
  have 3: "pay_run e Pay_on_customer_read (row_reply cval) (running_world st ?c2 ?m2) =
      Inr (registered Pay_on_commit (running_world st ?c3 ?l3))"
    using rows(3) pay_on_customer_read_eq [of "running_world st ?c2 ?m2" ?c2 "row_reply cval" cval e ?cv] range
    by (simp add: reliable_async [OF rel])
  have 4: "run_chain (pay_run e) [ok_reply] (waiting_world st ?c3 (?l3 @ [Fdb_future_destroy]) Pay_on_commit) =
      Inr (finished_world st (((?l3 @ [Fdb_future_destroy]) @ [H2o_send_inline (Yajl
        [Map_open, Jstring (c_str ''status''), Jstring (c_str ''ok''), Jstring (c_str ''amount''),
         Jinteger (sint (pay_h_amount c)), Map_close])]) @ [Fdb_transaction_destroy, Fdb_future_destroy]))"
    using ids(3) by (intro run_chain_finish [where c' = ?c3]) (simp add: pay_on_commit_def customer_taken_def)
  have "writes (payment_writes ?bo ?c2 ?cv t) = payment_writes ?bo ?c2 ?cv t \<and> responses (payment_writes ?bo ?c2 ?cv t) = 0" for t
    by (simp add: payment_writes_def)
  moreover have "run_chain (pay_run e) [row_reply wval, row_reply dval, row_reply cval, ok_reply]
      (waiting_world st c l Pay_on_warehouse_read) =
      run_chain (pay_run e) [ok_reply] (waiting_world st ?c3 (?l3 @ [Fdb_future_destroy]) Pay_on_commit)"
    by (simp only: run_chain_continue [where run = "pay_run e", OF 1] run_chain_continue [where run = "pay_run e", OF 2]
        run_chain_continue [where run = "pay_run e", OF 3])
  ultimately show ?thesis
    using 4 by (intro exI [of _ "?l3 @ [Fdb_future_destroy]"] exI [of _ "e_time e ?m2"]) (simp del: run_chain.simps)
qed

section \<open>Payment against a store\<close>

text \<open>
  What a payment does, given the rows of the store and the time of its writes: what it writes and what it answers, or
  that an amount overflows.
\<close>

definition payment_ok_response :: "payment_ctx \<Rightarrow> call" where
  "payment_ok_response c = H2o_send_inline (Yajl [Map_open, Jstring (c_str ''status''), Jstring (c_str ''ok''),
     Jstring (c_str ''amount''), Jinteger (sint (pay_h_amount c)), Map_close])"

definition pay_customer :: "env \<Rightarrow> payment_ctx \<Rightarrow> customer_val \<Rightarrow> i64 \<Rightarrow> (call list \<times> call) result" where
  "pay_customer e c cv now =
     (if payment_in_range c cv then Inr (payment_writes (e_byte_order e) c cv now, payment_ok_response c)
      else Inl SignedOverflow)"

definition payment_spec :: "env \<Rightarrow> rows \<Rightarrow> payment_ctx \<Rightarrow> i64 \<Rightarrow> (call list \<times> call) result" where
  "payment_spec e rows c now =
     (case row_at sizeof_warehouse_val rows (key_bytes (KWarehouse (pay_w_id c))) of
        None \<Rightarrow> Inr ([], H2o_send_error_generic 500 ''Error'' ''warehouse not found'')
      | Some wval \<Rightarrow>
     case row_at sizeof_district_val rows (key_bytes (KDistrict (pay_c_w_id c) (pay_c_d_id c))) of
        None \<Rightarrow> Inr ([], H2o_send_error_generic 500 ''Error'' ''district not found'')
      | Some dval \<Rightarrow>
     let c = paying e c wval dval
     in case row_at sizeof_customer_val rows (key_bytes (KCustomer (pay_c_w_id c) (pay_c_d_id c) (pay_c_id c))) of
        None \<Rightarrow> Inr ([], H2o_send_error_generic 500 ''Error'' ''customer not found'')
      | Some cval \<Rightarrow> pay_customer e c (cast_customer (e_byte_order e) cval) now)"

lemma pay_on_customer_read_overflow:
  assumes "ctx w = Some c" and "tr w" and "r_error r = 0" and "value_of_size sizeof_customer_val r = Some val"
    and "\<not> payment_in_range c (cast_customer (e_byte_order e) val)"
  shows "pay_on_customer_read e r w = Inl SignedOverflow"
  using assms by (auto simp: pay_on_customer_read_def Let_def payment_in_range_def schk_def bindR_def)

text \<open>A payment keeps what it was asked for; only a customer selected by name is drawn again.\<close>

definition same_payment :: "payment_ctx \<Rightarrow> payment_ctx \<Rightarrow> bool" where
  "same_payment c c' \<longleftrightarrow> pay_w_id c' = pay_w_id c \<and> pay_c_w_id c' = pay_c_w_id c \<and> pay_c_d_id c' = pay_c_d_id c \<and>
     pay_h_amount c' = pay_h_amount c \<and> pay_by_name c' = pay_by_name c \<and> (\<not> pay_by_name c \<longrightarrow> pay_c_id c' = pay_c_id c)"

lemma same_payment_steps:
  "same_payment c c" "same_payment c (c\<lparr>pay_w_ytd := x\<rparr>)" "same_payment c (paying e c wval dval)"
  "same_payment c c' \<Longrightarrow> same_payment c (customer_taken c' cv)"
  by (simp_all add: same_payment_def paying_def customer_taken_def Let_def split: prod.splits)

lemma payment_spec_same:
  assumes "same_payment c c'" and "\<not> pay_by_name c"
  shows "payment_spec e rows c' now = payment_spec e rows c now"
  using assms
  by (simp add: same_payment_def payment_spec_def paying_def pay_customer_def payment_in_range_def payment_writes_def
      payment_ok_response_def Let_def split: option.split)

abbreviation payment_asked :: "payment_ctx \<Rightarrow> payment_ctx \<Rightarrow> call \<Rightarrow> bool" where
  "payment_asked c c' response \<equiv> same_payment c c' \<and> response = payment_ok_response c'"

lemma finish_payment_served:
  assumes "pay_run e b (reply l) (running_world st c l) = finish_payment 500 msg (running_world st c l)"
    and "writes (attempt l) = []" and "filter is_response l = []" and "Fdb_commit \<notin> set (attempt l)"
  shows "attempted st n' (pay_run e) reply b' P k (serve (Suc n) (pay_run e) reply (waiting_world st c l b))
    (Inr ([], H2o_send_error_generic 500 ''Error'' msg))"
proof -
  have "serve (Suc n) (pay_run e) reply (waiting_world st c l b) = Inr (finished_world st
      ((l @ [H2o_send_error_generic 500 ''Error'' msg]) @ [Fdb_transaction_destroy, Fdb_future_destroy]))"
    using assms(1) by (intro serve_finish [where c' = c]) (simp add: finish_payment_def)
  then show ?thesis using assms(2-4) by (auto simp: attempted_def served_as_def)
qed

lemma payment_attempted_customer:
  assumes rel: "reliable e" and l: "writes (attempt l) = []" "filter is_response l = []" "Fdb_commit \<notin> set (attempt l)"
    and c: "same_payment c0 c" and k: "k = key_bytes (KCustomer (pay_c_w_id c) (pay_c_d_id c) (pay_c_id c))"
    and m: "m = l @ [Fdb_get k, Fdb_future_destroy]" and rep: "reply m = store_reply rows scan m"
  shows "attempted st n (pay_run e) reply Pay_on_commit (payment_asked c0) (retries l)
      (serve (Suc n) (pay_run e) reply (waiting_world st c m Pay_on_customer_read))
    (case row_at sizeof_customer_val rows k of
       None \<Rightarrow> Inr ([], H2o_send_error_generic 500 ''Error'' ''customer not found'')
     | Some cval \<Rightarrow> pay_customer e c (cast_customer (e_byte_order e) cval) (e_time e m))"
proof (cases "row_at sizeof_customer_val rows k")
  case None
  then show ?thesis
    using l rep by (auto intro!: finish_payment_served simp: m pay_on_customer_read_def)
next
  case (Some cval)
  let ?cv = "cast_customer (e_byte_order e) cval"
  have val: "value_of_size sizeof_customer_val (reply m) = Some cval" using Some l(1) rep by (simp add: m)
  have err: "r_error (reply m) = 0" using rep by simp
  show ?thesis
  proof (cases "payment_in_range c ?cv")
    case False
    then have "pay_run e Pay_on_customer_read (reply m) (running_world st c m) = Inl SignedOverflow"
      using pay_on_customer_read_overflow [of "running_world st c m" c "reply m" cval e] val err by simp
    then show ?thesis
      using Some False serve_fault [of "pay_run e" Pay_on_customer_read reply m st c] by (simp add: pay_customer_def attempted_def)
  next
    case True
    let ?ws = "payment_writes (e_byte_order e) c ?cv (e_time e m)" and ?c = "customer_taken c ?cv"
    let ?l1 = "m @ ?ws @ [Fdb_commit]" let ?l2 = "?l1 @ [Fdb_future_destroy]"
    have 1: "pay_run e Pay_on_customer_read (reply m) (running_world st c m) =
        Inr (registered Pay_on_commit (running_world st ?c ?l1))"
      using pay_on_customer_read_eq [of "running_world st c m" c "reply m" cval e ?cv] val err True
      by (simp add: reliable_async [OF rel])
    have ws: "writes ?ws = ?ws" "filter is_response ?ws = []" "?ws \<noteq> []" "retries ?ws = 0" by (simp_all add: payment_writes_def)
    have "payment_asked c0 ?c (payment_ok_response c)"
      using same_payment_steps(4) [OF c] by (simp add: payment_ok_response_def customer_taken_def)
    then show ?thesis
      using Some True l ws serve_continue [where run = "pay_run e" and reply = reply and n = n, OF 1]
      by (auto simp: pay_customer_def attempted_def m intro!: exI [of _ ?c] exI [of _ ?l2])
  qed
qed

lemma payment_attempted:
  assumes rel: "reliable e" and l: "writes (attempt l) = []" "filter is_response l = []" "Fdb_commit \<notin> set (attempt l)"
    and rep: "\<And>l'. retries l' = retries l \<Longrightarrow> Fdb_commit \<notin> set (attempt l') \<Longrightarrow> reply l' = store_reply rows scan l'"
    and ds: "ds = [] \<or> ds = [Fdb_future_destroy]"
  shows "\<exists>now. attempted st n (pay_run e) reply Pay_on_commit (payment_asked c) (retries l)
      (serve (n + 3) (pay_run e) reply (waiting_world st c (l @ Fdb_get (key_bytes (KWarehouse (pay_w_id c))) # ds) Pay_on_warehouse_read))
    (payment_spec e rows c now)"
proof -
  let ?kw = "key_bytes (KWarehouse (pay_w_id c))" and ?kd = "key_bytes (KDistrict (pay_c_w_id c) (pay_c_d_id c))"
  let ?l0 = "l @ Fdb_get ?kw # ds" let ?l1 = "?l0 @ [Fdb_get ?kd]" let ?m1 = "?l0 @ [Fdb_get ?kd, Fdb_future_destroy]"
  have l0: "writes (attempt ?l0) = []" "filter is_response ?l0 = []" "Fdb_commit \<notin> set (attempt ?l0)" "retries ?l0 = retries l"
    "filter is_async ?l0 \<noteq> [] \<and> last (filter is_async ?l0) = Fdb_get ?kw"
    using l ds by auto
  show ?thesis
  proof (cases "row_at sizeof_warehouse_val rows ?kw")
    case None
    then show ?thesis
      using finish_payment_served [of e Pay_on_warehouse_read reply ?l0 st c "''warehouse not found''" _ _ _ _ "n + 2"] l0 rep [of ?l0]
      by (simp add: payment_spec_def pay_on_warehouse_read_def eval_nat_numeral)
  next
    case w: (Some wval)
    let ?c1 = "c\<lparr>pay_w_ytd := w_ytd (cast_warehouse (e_byte_order e) wval)\<rparr>"
    have "pay_run e Pay_on_warehouse_read (reply ?l0) (running_world st c ?l0) =
        Inr (registered Pay_on_district_read (running_world st ?c1 ?l1))"
      using w l0 rep [of ?l0] by (simp add: pay_on_warehouse_read_def Let_def reliable_async [OF rel])
    note 1 = serve_continue [where run = "pay_run e" and reply = reply and n = "n + 2", OF this]
    have rep1: "reply ?m1 = store_reply rows scan ?m1" using l0(3,4) ds by (intro rep) auto
    have m1: "writes (attempt ?m1) = []" "filter is_response ?m1 = []" "Fdb_commit \<notin> set (attempt ?m1)"
      using l ds by auto
    show ?thesis
    proof (cases "row_at sizeof_district_val rows ?kd")
      case None
      then show ?thesis
        using finish_payment_served [of e Pay_on_district_read reply ?m1 st ?c1 "''district not found''" _ _ _ _ "n + 1"] m1 w 1 rep1
        by (simp add: payment_spec_def pay_on_district_read_def eval_nat_numeral)
    next
      case d: (Some dval)
      let ?c2 = "paying e c wval dval"
      let ?kc = "key_bytes (KCustomer (pay_c_w_id ?c2) (pay_c_d_id ?c2) (pay_c_id ?c2))"
      let ?m2 = "?m1 @ [Fdb_get ?kc, Fdb_future_destroy]"
      have "pay_run e Pay_on_district_read (reply ?m1) (running_world st ?c1 ?m1) =
          Inr (registered Pay_on_customer_read (running_world st ?c2 (?m1 @ [Fdb_get ?kc])))"
        using d m1 rep1 by (simp add: pay_on_district_read_def Let_def reliable_async [OF rel] get_random_number_eq
            tpcc_constants paying_def split: prod.splits)
      note 2 = serve_continue [where run = "pay_run e" and reply = reply and n = "n + 1", OF this]
      have "reply ?m2 = store_reply rows scan ?m2" using l ds by (intro rep) auto
      then show ?thesis
        using payment_attempted_customer [OF rel m1 same_payment_steps(3) refl refl, where reply = reply and rows = rows and scan = scan and st = st and n = n] w d 1 2 ds
        by (auto simp: payment_spec_def Let_def eval_nat_numeral intro!: exI [of _ "e_time e ?m2"])
    qed
  qed
qed

lemma payment_spec_writing: "writing (payment_spec e rows c now) \<Longrightarrow> writing (payment_spec e rows c now')"
  by (auto simp: writing_def payment_spec_def pay_customer_def payment_writes_def Let_def split: option.splits if_splits)

interpretation payment_retried: retried_chain "pay_run e" "reliable e" Pay_on_warehouse_read Pay_on_commit Pay_on_error_retry
  "\<lambda>c. key_bytes (KWarehouse (pay_w_id c))" "\<lambda>c. 3" "\<lambda>c. True" "\<lambda>c. \<not> pay_by_name c" same_payment "\<lambda>c. c"
  payment_ok_response "payment_spec e" for e
proof (unfold_locales, goal_cases)
  case (1 c l ds reply rows scan st n)
  then show ?case by (intro payment_attempted) auto
next
  case (5 r st c l)
  then show ?case by (simp add: pay_on_error_retry_def reliable_async)
next
  case (10 c c' rows now)
  then show ?case by (intro payment_spec_same)
qed (auto simp: pay_on_commit_def payment_ok_response_def reliable_async same_payment_def intro: payment_spec_writing)

text \<open>From the entry point on.\<close>

lemma payment_begun:
  assumes "serving e st"
  shows "payment_begin e (fresh_world st c) = Inr (waiting_world (counted st) c
    [Fdb_create_transaction, Fdb_get (key_bytes (KWarehouse (pay_w_id c)))] Pay_on_warehouse_read)"
  using assms by (simp add: serving_def payment_begin_def begin_request_begun reliable_async registered_begun)

lemma payment_request_served:
  assumes "serving e st"
  shows "\<exists>now. served_as (counted st) (serve_request (payment_begin e) (pay_run e) 4 (store_reply rows scan) st c)
    (payment_spec e rows c now)"
  using payment_retried.begun_served [where start = "payment_begin e" and c = c, OF _ _ payment_begun [OF assms]] assms
  by (simp add: serving_def)

lemmas payment_begun_retried =
  payment_retried.begun_retried [where start = "payment_begin e" and e = e for e]
  payment_retried.begun_retried_outcome [where start = "payment_begin e" and e = e for e]

lemma payment_request_retried:
  assumes "serving e st" and "\<And>j. errs j \<noteq> 0"
  shows "\<exists>j c' now. same_payment c c' \<and> (j = k \<or> j < k \<and> \<not> writing (payment_spec e (rows j) c' now)) \<and>
      served_as (counted st) (serve_request (payment_begin e) (pay_run e) (k * 5 + 4) (contended_reply rows scan errs k) st c)
        (payment_spec e (rows j) c' now)"
    and "\<not> pay_by_name c \<Longrightarrow> (\<And>j. j < k \<Longrightarrow> writing (payment_spec e (rows j) c now)) \<Longrightarrow>
      \<exists>now. served_as (counted st) (serve_request (payment_begin e) (pay_run e) (k * 5 + 4) (contended_reply rows scan errs k) st c)
        (payment_spec e (rows k) c now)"
  using payment_begun_retried(2) [where c = c and k = k and rows = rows and errs = errs and scan = scan,
      OF _ _ _ payment_begun [OF assms(1)]]
    payment_begun_retried(1) [where c = c and k = k and rows = rows and errs = errs and scan = scan and now = now,
      OF _ _ _ payment_begun [OF assms(1)]] assms
  by (simp_all add: serving_def add.commute)

lemma payment_begin_shaped: "allR (shaped pay_tables) (payment_begin e (fresh_world st c))"
  unfolding payment_begin_def
  by (rule shaped_begin) (auto simp: fresh_world_def shaped_def intro!: shaped_intros)

section \<open>The drawn parameters\<close>

lemma amount_bounds: "200 \<le> sint (100 + (r mod 4999 + 1) * 100 :: u32) \<and> sint (100 + (r mod 4999 + 1) * 100 :: u32) \<le> 500000"
proof -
  define k where "k = r mod 4999 + 1"
  have "1 \<le> unat k" "unat k \<le> 4999"
    using mod_plus_one_bounds [of 4999 r] by (simp_all add: word_le_nat_alt k_def)
  then have k: "1 \<le> uint k" "uint k \<le> 4999" unfolding uint_nat by linarith+
  have e: "100 + k * 100 = word_of_int (100 + uint k * 100)" by simp
  have "sint (word_of_int (100 + uint k * 100) :: u32) = 100 + uint k * 100"
    using k by (intro sint_word_of_int_inrange) simp_all
  then have "200 \<le> sint (100 + k * 100) \<and> sint (100 + k * 100) \<le> 500000" unfolding e using k by simp
  then show ?thesis by (simp only: k_def)
qed

text \<open>What the entry point may draw.\<close>

definition payment_parameters_ok :: "payment_ctx \<Rightarrow> bool" where
  "payment_parameters_ok c \<longleftrightarrow> pay_w_id c = 1 \<and> pay_c_w_id c = 1 \<and>
     2 \<le> pay_d_id c \<and> pay_d_id c \<le> 10 \<and> 2 \<le> pay_c_d_id c \<and> pay_c_d_id c \<le> 10 \<and>
     200 \<le> sint (pay_h_amount c) \<and> sint (pay_h_amount c) \<le> 500000 \<and>
     (if pay_by_name c then \<exists>n \<le> 999. c_bytes (pay_c_last c) = c_last_of n
      else 1 \<le> pay_c_id c \<and> pay_c_id c \<le> 3000)"

lemma draw_payment_cases:
  fixes rand_r :: rng and seed :: u32
  assumes "pay_c_last c = replicate 16 0"
  defines "remote \<equiv> fst (rand_r (snd (rand_r seed))) mod 99 + 1 < 15"
  shows "if remote then draw_payment rand_r seed c = Inl DivByZero
    else \<exists>c'. draw_payment rand_r seed c = Inr c' \<and> payment_parameters_ok c'"
proof (cases remote)
  case True
  then show ?thesis
    by (simp add: draw_payment_def get_random_number_eq get_random_number_zero tpcc_constants remote_def)
next
  case False
  obtain r1 s1 where r1: "rand_r seed = (r1, s1)" by force
  obtain r2 s2 where r2: "rand_r s1 = (r2, s2)" by force
  obtain r3 s3 where r3: "rand_r s2 = (r3, s3)" by force
  obtain r4 s4 where r4: "rand_r s3 = (r4, s4)" by force
  obtain r5 s5 where r5: "rand_r s4 = (r5, s5)" by force
  have d: "2 \<le> 1 + (r1 mod 9 + 1)" "1 + (r1 mod 9 + 1) \<le> 10" "2 \<le> 1 + (r3 mod 9 + 1)" "1 + (r3 mod 9 + 1) \<le> 10"
    using one_plus_bounds [of 9 r1] one_plus_bounds [of 9 r3] by simp_all
  obtain n s6 where n: "nurand rand_r NURAND_C_LAST_A 0 999 s5 (r5 mod 256) = Inr (n, s6)" "n \<le> 999"
    using nurand_bounds [of 0 999 NURAND_C_LAST_A rand_r s5 "r5 mod 256"] by (auto simp: tpcc_constants)
  obtain k s7 where k: "nurand rand_r NURAND_C_ID_A 1 CUSTOMERS_PER_DISTRICT s4 0 = Inr (k, s7)" "1 \<le> k" "k \<le> 3000"
    using nurand_bounds [of 1 CUSTOMERS_PER_DISTRICT NURAND_C_ID_A rand_r s4 0] by (auto simp: tpcc_constants)
  have u: "umod r5 (NURAND_C_LAST_A + 1) = Inr (r5 mod 256)" by (simp add: umod_def tpcc_constants)
  have last: "gen_c_last n (replicate 16 0) = Inr (c_last_of n @ 0 # drop (length (c_last_of n)) (replicate 15 0))"
    using gen_c_last_eq [of "replicate 15 0" n] by (simp add: numeral_eq_Suc)
  have name: "c_bytes (c_last_of n @ 0 # rest) = c_last_of n" for rest
    by (rule c_bytes_terminated) (rule c_last_of_no_zero)
  show ?thesis
    using False d k(2,3) n(2) name assms(1) amount_bounds
    by (auto simp: draw_payment_def get_random_number_eq Let_def remote_def r1 r2 r3 r4 r5 k(1) u
        n(1) last payment_parameters_ok_def DISTRICTS_PER_WAREHOUSE_def
        split: prod.splits)
qed

section \<open>Properties\<close>

definition example_payment :: payment_ctx where
  "example_payment = zero_payment_ctx\<lparr>pay_w_id := 1, pay_c_w_id := 1, pay_c_d_id := 2, pay_c_id := 3, pay_h_amount := 500\<rparr>"

text \<open>
  C11. A Payment request, whatever the database and the environment answer: its first call returns,
  and in every state it reaches at most one response has been sent, the context and the transaction are
  released exactly with the response, no future or wrapper leaks and no callback touches freed
  memory; the only fault a hostile row can cause is a signed overflow.
\<close>

theorem payment_request_safe:
  assumes "fresh_request st c w0"
  shows "\<exists>w1. payment_begin e w0 = Inr w1 \<and>
    (\<forall>w. (chain_step (pay_run e))\<^sup>*\<^sup>* w1 w \<longrightarrow> request_safe (pay_run e) (reliable e) {SignedOverflow} w)"
  using payment_begin_outcome [OF assms] payment.reachable_safe by blast

theorem payment_request_safe_witness:
  "\<exists>w1. payment_begin sunny_env (fresh_world sunny_state example_payment) = Inr w1 \<and>
     request_safe (pay_run sunny_env) True {SignedOverflow} w1"
proof -
  have "fresh_request sunny_state example_payment (fresh_world sunny_state example_payment :: pay_world)"
    by (rule fresh_world_request) simp
  from payment_request_safe [OF this, of sunny_env] show ?thesis
    by auto
qed

text \<open>
  A Payment whose reads find their rows and whose commit succeeds writes four rows: the
  warehouse and district year-to-date sums grow by the amount, the customer's balance falls by it
  and the year-to-date payment and payment count grow, and a history row records it; it answers
  with the amount and releases the request.
\<close>

lemma payment_posts_amount:
  assumes "reliable e" and "e_create e [Fdb_create_transaction] = 0" and "db st \<noteq> None"
    and "sizeof_warehouse_val \<le> length wval" and "sizeof_district_val \<le> length dval" and "sizeof_customer_val \<le> length cval"
    and "payment_in_range (paying e c wval dval) (cast_customer (e_byte_order e) cval)"
  shows "\<exists>w now. bindR (payment_begin e (fresh_world st c))
      (run_chain (pay_run e) [row_reply wval, row_reply dval, row_reply cval, ok_reply]) = Inr w \<and>
    finished w \<and>
    writes (log w) = payment_writes (e_byte_order e) (paying e c wval dval) (cast_customer (e_byte_order e) cval) now \<and>
    filter is_response (log w) = [H2o_send_inline (Yajl [Map_open, Jstring (c_str ''status''), Jstring (c_str ''ok''),
      Jstring (c_str ''amount''), Jinteger (sint (pay_h_amount c)), Map_close])]"
proof -
  let ?st = "Some (st\<lparr>active_transactions := active_transactions st + 1\<rparr>)"
  let ?l = "[Fdb_create_transaction, Fdb_get (key_bytes (KWarehouse (pay_w_id c)))]"
  have b: "payment_begin e (fresh_world st c) = Inr (waiting_world ?st c ?l Pay_on_warehouse_read)"
    using assms(1) by (simp add: payment_begin_def begin_request_begun [OF assms(3,2)] reliable_async registered_begun)
  obtain l' now where r: "run_chain (pay_run e) [row_reply wval, row_reply dval, row_reply cval, ok_reply]
      (waiting_world ?st c ?l Pay_on_warehouse_read) = Inr (finished_world ?st (l' @ [H2o_send_inline (Yajl
        [Map_open, Jstring (c_str ''status''), Jstring (c_str ''ok''), Jstring (c_str ''amount''),
         Jinteger (sint (pay_h_amount c)), Map_close]), Fdb_transaction_destroy, Fdb_future_destroy]))"
      "writes l' = writes ?l @ payment_writes (e_byte_order e) (paying e c wval dval) (cast_customer (e_byte_order e) cval) now"
      "responses l' = responses ?l"
    using payment_run [OF assms(1,4-7)] by blast
  have "filter is_response l' = []"
    using r(3) by (simp add: responses_def)
  then show ?thesis
    using b r(1,2) by (auto simp: finished_def finished_world_def responses_def simp del: run_chain.simps)
qed


text \<open>
  C31. The entry point of Payment: when the second random number makes the customer remote it
  draws the warehouse with \<open>get_random_number(0, &seed)\<close> and traps; otherwise it starts
  the request with warehouse 1, districts from 2 to 10 (never 1), an amount from 2.00 to 5000.00 and
  a customer number from 1 to 3000 or a generated last name, and the request it starts is in one of the
  states the contract describes.
\<close>

theorem payment_entry_parameters:
  assumes "e_calloc e (log w)" and "fdb_state w = Some st" and "db st \<noteq> None" and "\<not> tr w" and "pending w = []"
    and "futures w = 0" and "wrappers w = 0" and "responses (log w) = 0"
  shows "if fst (e_rand_r e (snd (e_rand_r e seed))) mod 99 + 1 < 15
    then tpcc_payment_execute e seed w = Inl DivByZero
    else \<exists>c w'. payment_parameters_ok c \<and> payment_begin e (w\<lparr>ctx := Some c\<rparr>) = Inr w' \<and>
      tpcc_payment_execute e seed w = Inr w' \<and> request_state pay_ok (reliable e) w'"
proof -
  have "pay_c_last (zero_payment_ctx\<lparr>pay_seed := seed\<rparr>) = replicate 16 0" by (simp add: zero_payment_ctx_def)
  note draw = draw_payment_cases [OF this, where rand_r = "e_rand_r e" and seed = seed]
  have "fresh_request st c (w\<lparr>ctx := Some c\<rparr>)" for c
    using assms by (simp add: fresh_request_def)
  note begin_ok = payment_begin_outcome [OF this, where e = e]
  show ?thesis
  proof (cases "fst (e_rand_r e (snd (e_rand_r e seed))) mod 99 + 1 < 15")
    case True
    then show ?thesis using draw assms(1) by (simp add: tpcc_payment_execute_def)
  next
    case False
    then obtain c where c: "draw_payment (e_rand_r e) seed (zero_payment_ctx\<lparr>pay_seed := seed\<rparr>) = Inr c"
        "payment_parameters_ok c"
      using draw by auto
    obtain w' where "payment_begin e (w\<lparr>ctx := Some c\<rparr>) = Inr w'" "request_state pay_ok (reliable e) w'"
      using begin_ok [of c] by blast
    then show ?thesis using False c assms(1) by (auto simp: tpcc_payment_execute_def)
  qed
qed

theorem payment_entry_parameters_witness:
  "tpcc_payment_execute sunny_env 0 ((fresh_world sunny_state example_payment)\<lparr>ctx := None\<rparr>) = Inl DivByZero \<and>
   (\<exists>w'. tpcc_payment_execute sunny_env 50 ((fresh_world sunny_state example_payment)\<lparr>ctx := None\<rparr>) = Inr w')"
  using payment_entry_parameters [of sunny_env "(fresh_world sunny_state example_payment)\<lparr>ctx := None\<rparr>" sunny_state 0]
    payment_entry_parameters [of sunny_env "(fresh_world sunny_state example_payment)\<lparr>ctx := None\<rparr>" sunny_state 50]
  by (auto simp: fresh_world_def sunny_env_def sunny_state_def)

end
