(* ===== verification/Read_Txns.thy ===== *)
theory Read_Txns
  imports Served_Requests
begin

text \<open>
  OrderStatus, Delivery and StockLevel of \<open>src/handlers/tpcc_read_txns.c\<close>. The first two commit an
  empty transaction and answer; the third scans the stock rows of a warehouse and counts those
  below a threshold. Each is an instance of \<open>callback_chain\<close> with a single callback.
\<close>

section \<open>OrderStatus\<close>

record order_status_ctx =
  os_w_id :: u32
  os_d_id :: u32
  os_c_id :: u32
  os_c_last :: bytes
  os_by_name :: bool

definition zero_order_status_ctx :: order_status_ctx where
  "zero_order_status_ctx = \<lparr>os_w_id = 0, os_d_id = 0, os_c_id = 0, os_c_last = replicate 16 0, os_by_name = False\<rparr>"

datatype os_cb = Os_on_commit

type_synonym os_world = "(order_status_ctx, os_cb) world"

definition os_on_commit :: "fdb_reply \<Rightarrow> os_world \<Rightarrow> os_world result" where
  "os_on_commit future w = with_ctx w (\<lambda>c.
     release (emit (H2o_send_inline (Yajl [Map_open, Jstring (c_str ''status''), Jstring (c_str ''ok''), Map_close])) w))"

fun os_run :: "os_cb \<Rightarrow> fdb_reply \<Rightarrow> os_world \<Rightarrow> os_world result" where
  "os_run Os_on_commit r w = os_on_commit r w"

definition draw_order_status :: "rng \<Rightarrow> u32 \<Rightarrow> order_status_ctx \<Rightarrow> order_status_ctx result" where
  "draw_order_status rand_r seed c =
     (let c = c\<lparr>os_w_id := 1\<rparr>
      in bindR (get_random_number rand_r (DISTRICTS_PER_WAREHOUSE - 1) seed) (\<lambda>(r, seed).
      let c = c\<lparr>os_d_id := 1 + r\<rparr>
      in bindR (get_random_number rand_r 99 seed) (\<lambda>(r, seed).
      let c = c\<lparr>os_by_name := (r < 60)\<rparr>
      in if \<not> os_by_name c
         then bindR (get_random_number rand_r (CUSTOMERS_PER_DISTRICT - 1) seed) (\<lambda>(r, seed).
                Inr (c\<lparr>os_c_id := 1 + r\<rparr>))
         else Inr c)))"

definition order_status_begin :: "env \<Rightarrow> os_world \<Rightarrow> os_world result" where
  "order_status_begin e = begin_request ''fdb failed'' (\<lambda>w. with_ctx w (\<lambda>c. ignore_rc (fdb_async_commit e Os_on_commit w))) e"

definition tpcc_order_status_execute :: "env \<Rightarrow> u32 \<Rightarrow> os_world \<Rightarrow> os_world result" where
  "tpcc_order_status_execute e seed w =
     (if \<not> e_calloc e (log w)
      then Inr (emit (H2o_send_error_503 ''Service Unavailable'' ''oom'') w)
      else bindR (draw_order_status (e_rand_r e) seed zero_order_status_ctx) (\<lambda>c.
             order_status_begin e (w\<lparr>ctx := Some c\<rparr>)))"

section \<open>Delivery\<close>

record delivery_ctx =
  dl_w_id :: u32
  dl_carrier_id :: i32

definition zero_delivery_ctx :: delivery_ctx where
  "zero_delivery_ctx = \<lparr>dl_w_id = 0, dl_carrier_id = 0\<rparr>"

datatype dl_cb = Dl_on_commit

type_synonym dl_world = "(delivery_ctx, dl_cb) world"

definition dl_on_commit :: "fdb_reply \<Rightarrow> dl_world \<Rightarrow> dl_world result" where
  "dl_on_commit future w = with_ctx w (\<lambda>c.
     release (emit (H2o_send_inline (Yajl [Map_open, Jstring (c_str ''status''), Jstring (c_str ''ok''),
       Jstring (c_str ''carrier''), Jinteger (sint (dl_carrier_id c)), Map_close])) w))"

fun dl_run :: "dl_cb \<Rightarrow> fdb_reply \<Rightarrow> dl_world \<Rightarrow> dl_world result" where
  "dl_run Dl_on_commit r w = dl_on_commit r w"

definition delivery_begin :: "env \<Rightarrow> dl_world \<Rightarrow> dl_world result" where
  "delivery_begin e = begin_request ''fdb failed'' (\<lambda>w. with_ctx w (\<lambda>c. ignore_rc (fdb_async_commit e Dl_on_commit w))) e"

definition tpcc_delivery_execute :: "env \<Rightarrow> u32 \<Rightarrow> dl_world \<Rightarrow> dl_world result" where
  "tpcc_delivery_execute e seed w =
     (if \<not> e_calloc e (log w)
      then Inr (emit (H2o_send_error_503 ''Service Unavailable'' ''oom'') w)
      else bindR (get_random_number (e_rand_r e) 9 seed) (\<lambda>(r, seed).
             delivery_begin e (w\<lparr>ctx := Some (zero_delivery_ctx\<lparr>dl_w_id := 1, dl_carrier_id := 1 + r\<rparr>)\<rparr>)))"

section \<open>StockLevel\<close>

record stock_level_ctx =
  sl_w_id :: u32
  sl_d_id :: u32
  sl_threshold :: i32

definition zero_stock_level_ctx :: stock_level_ctx where
  "zero_stock_level_ctx = \<lparr>sl_w_id = 0, sl_d_id = 0, sl_threshold = 0\<rparr>"

datatype sl_cb = Sl_on_range_read

type_synonym sl_world = "(stock_level_ctx, sl_cb) world"

text \<open>One pass of the counting loop.\<close>

definition count_low_stock :: "byte_order \<Rightarrow> i32 \<Rightarrow> bytes \<times> bytes \<Rightarrow> i32 \<Rightarrow> i32 result" where
  "count_low_stock bo threshold kv below =
     (if length (snd kv) \<ge> sizeof_stock_val \<and> sint (s_quantity (cast_stock bo (snd kv))) < sint threshold
      then schk (sint below + 1) else Inr below)"

text \<open>
  When \<open>fdb_future_get_keyvalue_array\<close> fails, its error is dropped and the loop reads a count and an array
  that were never set. The key string is sent with length 16, one more than its characters.
\<close>

definition sl_on_range_read :: "env \<Rightarrow> fdb_reply \<Rightarrow> sl_world \<Rightarrow> sl_world result" where
  "sl_on_range_read e future w = with_ctx w (\<lambda>c.
     if r_error future \<noteq> 0
     then release (emit (H2o_send_error_503 ''Service Unavailable'' ''fdb error'') w)
     else guardR (r_get_error future = 0) UninitRead
       (bindR (forR (r_kvs future) (count_low_stock (e_byte_order e) (sl_threshold c)) 0) (\<lambda>below.
          release (emit (H2o_send_inline (Yajl [Map_open, Jstring (c_str ''status''), Jstring (c_str ''ok''),
            Jstring (c_str ''below_threshold'' @ [0]), Jinteger (sint below), Map_close])) w))))"

fun sl_run :: "env \<Rightarrow> sl_cb \<Rightarrow> fdb_reply \<Rightarrow> sl_world \<Rightarrow> sl_world result" where
  "sl_run e Sl_on_range_read r w = sl_on_range_read e r w"

definition draw_stock_level :: "rng \<Rightarrow> u32 \<Rightarrow> stock_level_ctx \<Rightarrow> stock_level_ctx result" where
  "draw_stock_level rand_r seed c =
     (let c = c\<lparr>sl_w_id := 1\<rparr>
      in bindR (get_random_number rand_r (DISTRICTS_PER_WAREHOUSE - 1) seed) (\<lambda>(r, seed).
      let c = c\<lparr>sl_d_id := 1 + r\<rparr>
      in bindR (get_random_number rand_r 10 seed) (\<lambda>(r, seed).
         Inr (c\<lparr>sl_threshold := 10 + r\<rparr>))))"

definition stock_level_begin :: "env \<Rightarrow> sl_world \<Rightarrow> sl_world result" where
  "stock_level_begin e = begin_request ''fdb failed'' (\<lambda>w. with_ctx w (\<lambda>c.
     bindR (key64 (\<lambda>b. kv_stock_range_begin b (sl_w_id c))) (\<lambda>begin_key.
     bindR (key64 (\<lambda>b. kv_stock_range_end b (sl_w_id c))) (\<lambda>end_key.
       ignore_rc (fdb_async_get_range e begin_key end_key Sl_on_range_read w))))) e"

definition tpcc_stock_level_execute :: "env \<Rightarrow> u32 \<Rightarrow> sl_world \<Rightarrow> sl_world result" where
  "tpcc_stock_level_execute e seed w =
     (if \<not> e_calloc e (log w)
      then Inr (emit (H2o_send_error_503 ''Service Unavailable'' ''oom'') w)
      else bindR (draw_stock_level (e_rand_r e) seed zero_stock_level_ctx) (\<lambda>c.
             stock_level_begin e (w\<lparr>ctx := Some c\<rparr>)))"

section \<open>The three callback chains\<close>

interpretation order_status: callback_chain os_run "\<lambda>_ _. True" "reliable e" "{}" for e
proof unfold_locales
  fix b :: os_cb and w :: os_world and r
  assume "alive (\<lambda>_ _. True) b w"
  then show "good_outcome (\<lambda>_ _. True) (reliable e) {} w (os_run b r w)"
    by (cases b) (auto simp: alive_def os_on_commit_def intro!: release_outcome)
qed

interpretation delivery: callback_chain dl_run "\<lambda>_ _. True" "reliable e" "{}" for e
proof unfold_locales
  fix b :: dl_cb and w :: dl_world and r
  assume "alive (\<lambda>_ _. True) b w"
  then show "good_outcome (\<lambda>_ _. True) (reliable e) {} w (dl_run b r w)"
    by (cases b) (auto simp: alive_def dl_on_commit_def intro!: release_outcome)
qed

text \<open>The counting loop, from any count.\<close>

definition low_stock :: "byte_order \<Rightarrow> i32 \<Rightarrow> (bytes \<times> bytes) list \<Rightarrow> (bytes \<times> bytes) list" where
  "low_stock bo threshold kvs =
     filter (\<lambda>(k, v). sizeof_stock_val \<le> length v \<and> sint (s_quantity (cast_stock bo v)) < sint threshold) kvs"

lemma count_loop:
  assumes "0 \<le> sint n" and "sint n + int (length kvs) < 2 ^ 31"
  shows "\<exists>m. forR kvs (count_low_stock bo threshold) n = Inr m \<and> sint m = sint n + int (length (low_stock bo threshold kvs))"
  using assms
proof (induction kvs arbitrary: n)
  case (Cons kv kvs)
  show ?case
  proof (cases "sizeof_stock_val \<le> length (snd kv) \<and> sint (s_quantity (cast_stock bo (snd kv))) < sint threshold")
    case True
    have s: "sint (word_of_int (sint n + 1) :: i32) = sint n + 1"
      using Cons.prems by (intro sint_word_of_int_inrange) simp_all
    have "count_low_stock bo threshold kv n = Inr (word_of_int (sint n + 1))"
      using True Cons.prems by (simp add: count_low_stock_def schk_def)
    then show ?thesis
      using Cons.IH [of "word_of_int (sint n + 1)"] Cons.prems True
      unfolding s by (auto simp: low_stock_def case_prod_unfold simp del: of_int_add)
  next
    case False
    then have "count_low_stock bo threshold kv n = Inr n" "low_stock bo threshold (kv # kvs) = low_stock bo threshold kvs"
      by (auto simp: count_low_stock_def low_stock_def case_prod_unfold)
    then show ?thesis using Cons.IH [of n] Cons.prems by simp
  qed
qed (simp add: low_stock_def)

lemma count_loop_faults: "forR kvs (count_low_stock bo threshold) n = Inl f \<Longrightarrow> f = SignedOverflow"
proof (induction kvs arbitrary: n)
  case (Cons kv kvs)
  then show ?case
    by (auto simp: bindR_eq_Inl_iff count_low_stock_def schk_def split: if_splits)
qed simp

lemma sl_run_outcome:
  assumes "alive (\<lambda>_ _. True) b w"
  shows "good_outcome (\<lambda>_ _. True) (reliable e) {UninitRead, SignedOverflow} w (sl_run e b r w)"
proof -
  obtain c where c: "ctx w = Some c" "tr w" "responses (log w) = 0" using assms by (auto simp: alive_def)
  have fin: "good_outcome (\<lambda>_ _. True) (reliable e) {UninitRead, SignedOverflow} w (release (emit d w))" if "is_response d" for d
    using c that by (intro release_outcome) auto
  show ?thesis
    using c fin count_loop_faults
    by (cases b; cases "forR (r_kvs r) (count_low_stock (e_byte_order e) (sl_threshold c)) 0")
      (fastforce simp: sl_on_range_read_def guardR_def good_outcome_Inl)+
qed

interpretation stock_level: callback_chain "sl_run e" "\<lambda>_ _. True" "reliable e" "{UninitRead, SignedOverflow}" for e
  by unfold_locales (rule sl_run_outcome)

text \<open>Each of the three ends with its only callback and writes nothing.\<close>

lemma read_runs_ranked:
  "ctx w1 = Some c1 \<Longrightarrow> ranked (\<lambda>_ _. 1) (\<lambda>_. 0) r c1 1 w1 (os_run b1 r w1)"
  "ctx w2 = Some c2 \<Longrightarrow> ranked (\<lambda>_ _. 1) (\<lambda>_. 0) r c2 1 w2 (dl_run b2 r w2)"
  "ctx w3 = Some c3 \<Longrightarrow> ranked (\<lambda>_ _. 1) (\<lambda>_. 0) r c3 1 w3 (sl_run e b3 r w3)"
proof -
  show "ctx w1 = Some c1 \<Longrightarrow> ranked (\<lambda>_ _. 1) (\<lambda>_. 0) r c1 1 w1 (os_run b1 r w1)"
    by (cases b1) (auto simp: os_on_commit_def intro!: ranked_intros)
  show "ctx w2 = Some c2 \<Longrightarrow> ranked (\<lambda>_ _. 1) (\<lambda>_. 0) r c2 1 w2 (dl_run b2 r w2)"
    by (cases b2) (auto simp: dl_on_commit_def intro!: ranked_intros)
  show "ctx w3 = Some c3 \<Longrightarrow> ranked (\<lambda>_ _. 1) (\<lambda>_. 0) r c3 1 w3 (sl_run e b3 r w3)"
    by (cases b3; cases "forR (r_kvs r) (count_low_stock (e_byte_order e) (sl_threshold c3)) 0")
      (auto simp: sl_on_range_read_def guardR_def intro!: ranked_intros)
qed

lemma read_runs_shaped:
  "shaped (\<lambda>_. False) w1 \<Longrightarrow> allR (shaped (\<lambda>_. False)) (os_run b1 r w1)"
  "shaped (\<lambda>_. False) w2 \<Longrightarrow> allR (shaped (\<lambda>_. False)) (dl_run b2 r w2)"
  "shaped (\<lambda>_. False) w3 \<Longrightarrow> allR (shaped (\<lambda>_. False)) (sl_run e b3 r w3)"
proof -
  show "shaped (\<lambda>_. False) w1 \<Longrightarrow> allR (shaped (\<lambda>_. False)) (os_run b1 r w1)"
    by (cases b1) (auto simp: os_on_commit_def intro!: shaped_intros)
  show "shaped (\<lambda>_. False) w2 \<Longrightarrow> allR (shaped (\<lambda>_. False)) (dl_run b2 r w2)"
    by (cases b2) (auto simp: dl_on_commit_def intro!: shaped_intros)
  show "shaped (\<lambda>_. False) w3 \<Longrightarrow> allR (shaped (\<lambda>_. False)) (sl_run e b3 r w3)"
    by (cases b3) (auto simp: sl_on_range_read_def intro!: shaped_intros allR_any [where m = "forR kvs (count_low_stock bo t) n" for kvs bo t n])
qed

interpretation order_status_ranked: ranked_chain os_run "\<lambda>_ _. True" "reliable e" "{}" "\<lambda>_ _. 1" "\<lambda>_. 0" for e
  by unfold_locales (use read_runs_ranked(1) in \<open>simp add: ranked_def\<close>)

interpretation delivery_ranked: ranked_chain dl_run "\<lambda>_ _. True" "reliable e" "{}" "\<lambda>_ _. 1" "\<lambda>_. 0" for e
  by unfold_locales (use read_runs_ranked(2) in \<open>simp add: ranked_def\<close>)

interpretation stock_level_ranked:
  ranked_chain "sl_run e" "\<lambda>_ _. True" "reliable e" "{UninitRead, SignedOverflow}" "\<lambda>_ _. 1" "\<lambda>_. 0" for e
  by unfold_locales (use read_runs_ranked(3) in \<open>simp add: ranked_def\<close>)

interpretation order_status_shaping: shaping_chain os_run "\<lambda>_. False"
  using read_runs_shaped(1) by unfold_locales (auto simp: allR_def)

interpretation delivery_shaping: shaping_chain dl_run "\<lambda>_. False"
  using read_runs_shaped(2) by unfold_locales (auto simp: allR_def)

interpretation stock_level_shaping: shaping_chain "sl_run e" "\<lambda>_. False" for e
  using read_runs_shaped(3) by unfold_locales (auto simp: allR_def)

text \<open>
  The entry points of the three read transactions draw their parameters without a fault for
  every \<open>rand_r\<close> and seed: a district from 2 to 10 (district 1 is never drawn), a customer from 2
  to 3000, a threshold from 11 to 20.
\<close>

lemma read_parameters_in_range:
  "(\<exists>c. draw_order_status rand_r seed zero_order_status_ctx = Inr c \<and> os_w_id c = 1 \<and>
      2 \<le> os_d_id c \<and> os_d_id c \<le> 10 \<and> (os_by_name c \<or> 2 \<le> os_c_id c \<and> os_c_id c \<le> 3000)) \<and>
   (\<exists>c. draw_stock_level rand_r seed zero_stock_level_ctx = Inr c \<and> sl_w_id c = 1 \<and>
      2 \<le> sl_d_id c \<and> sl_d_id c \<le> 10 \<and> 11 \<le> sint (sl_threshold c) \<and> sint (sl_threshold c) \<le> 20)"
proof
  obtain r1 s1 where r1: "rand_r seed = (r1, s1)" by force
  obtain r2 s2 where r2: "rand_r s1 = (r2, s2)" by force
  obtain r3 s3 where r3: "rand_r s2 = (r3, s3)" by force
  have d: "2 \<le> 1 + (r1 mod 9 + 1)" "1 + (r1 mod 9 + 1) \<le> 10" "2 \<le> 1 + (r3 mod 2999 + 1)" "1 + (r3 mod 2999 + 1) \<le> 3000"
    using one_plus_bounds [of 9 r1] one_plus_bounds [of 2999 r3] by simp_all
  show "\<exists>c. draw_order_status rand_r seed zero_order_status_ctx = Inr c \<and> os_w_id c = 1 \<and>
      2 \<le> os_d_id c \<and> os_d_id c \<le> 10 \<and> (os_by_name c \<or> 2 \<le> os_c_id c \<and> os_c_id c \<le> 3000)"
    using d by (auto simp: draw_order_status_def get_random_number_eq tpcc_constants Let_def r1 r2 r3)
  define k where "k = r2 mod 10 + 1"
  have "1 \<le> unat k" "unat k \<le> 10"
    using mod_plus_one_bounds [of 10 r2] by (simp_all add: word_le_nat_alt k_def)
  then have k: "1 \<le> uint k" "uint k \<le> 10" unfolding uint_nat by linarith+
  have "sint (word_of_int (10 + uint k) :: i32) = 10 + uint k"
    using k by (intro sint_word_of_int_inrange) simp_all
  moreover have "10 + k = 11 + r2 mod 10" by (simp add: k_def)
  ultimately have "11 \<le> sint (11 + r2 mod 10) \<and> sint (11 + r2 mod 10) \<le> 20" using k by simp
  then show "\<exists>c. draw_stock_level rand_r seed zero_stock_level_ctx = Inr c \<and> sl_w_id c = 1 \<and>
      2 \<le> sl_d_id c \<and> sl_d_id c \<le> 10 \<and> 11 \<le> sint (sl_threshold c) \<and> sint (sl_threshold c) \<le> 20"
    using d by (simp add: draw_stock_level_def get_random_number_eq tpcc_constants Let_def r1 r2)
qed

text \<open>The first call of each transaction returns, with the request in one of its states.\<close>

lemma read_begin_outcomes:
  "fresh_request st c1 w1 \<Longrightarrow> \<exists>v. order_status_begin e w1 = Inr v \<and> request_state (\<lambda>_ _. True) (reliable e) v"
  "fresh_request st c2 w2 \<Longrightarrow> \<exists>v. delivery_begin e w2 = Inr v \<and> request_state (\<lambda>_ _. True) (reliable e) v"
  "fresh_request st c3 w3 \<Longrightarrow> \<exists>v. stock_level_begin e w3 = Inr v \<and> request_state (\<lambda>_ _. True) (reliable e) v"
  unfolding order_status_begin_def delivery_begin_def stock_level_begin_def
  by (erule begin_request_outcome; auto intro!: async_outcomes)+

lemma read_begun:
  assumes "serving e st"
  shows "order_status_begin e (fresh_world st c1) = Inr (waiting_world (counted st) c1 [Fdb_create_transaction, Fdb_commit] Os_on_commit)"
    and "delivery_begin e (fresh_world st c2) = Inr (waiting_world (counted st) c2 [Fdb_create_transaction, Fdb_commit] Dl_on_commit)"
    and "stock_level_begin e (fresh_world st c3) = Inr (waiting_world (counted st) c3 [Fdb_create_transaction,
       Fdb_get_range \<lparr>ks_key = key_bytes (KStock (sl_w_id c3) 0), ks_or_equal = False, ks_offset = 0\<rparr>
         \<lparr>ks_key = key_bytes (KStock (sl_w_id c3) 0xFFFFFFFF), ks_or_equal = False, ks_offset = 0\<rparr>] Sl_on_range_read)"
  using assms
  by (simp_all add: serving_def order_status_begin_def delivery_begin_def stock_level_begin_def begin_request_begun
      reliable_async registered_begun)

lemma read_begin_shaped:
  "allR (shaped (\<lambda>_. False)) (order_status_begin e (fresh_world st c1))"
  "allR (shaped (\<lambda>_. False)) (delivery_begin e (fresh_world st c2))"
  "allR (shaped (\<lambda>_. False)) (stock_level_begin e (fresh_world st c3))"
  unfolding order_status_begin_def delivery_begin_def stock_level_begin_def
  by (rule shaped_begin; auto simp: fresh_world_def shaped_def intro!: shaped_intros)+

section \<open>Properties\<close>

text \<open>
  C27. OrderStatus, Delivery and StockLevel requests, whatever the database and the environment answer:
  the first call returns, and in every state a request reaches at most one response has been
  sent, the context and the transaction are released exactly with the response and no callback
  touches freed memory. The first two have no fault at all; StockLevel can only read an array
  the library did not set, or overflow its counter.
\<close>

theorem read_requests_safe:
  assumes "fresh_request st c1 w1" and "fresh_request st c2 w2" and "fresh_request st c3 w3"
  shows "(\<exists>v. order_status_begin e w1 = Inr v \<and>
      (\<forall>w. (chain_step os_run)\<^sup>*\<^sup>* v w \<longrightarrow> request_safe os_run (reliable e) {} w)) \<and>
    (\<exists>v. delivery_begin e w2 = Inr v \<and>
      (\<forall>w. (chain_step dl_run)\<^sup>*\<^sup>* v w \<longrightarrow> request_safe dl_run (reliable e) {} w)) \<and>
    (\<exists>v. stock_level_begin e w3 = Inr v \<and>
      (\<forall>w. (chain_step (sl_run e))\<^sup>*\<^sup>* v w \<longrightarrow> request_safe (sl_run e) (reliable e) {UninitRead, SignedOverflow} w))"
  using read_begin_outcomes(1) [OF assms(1), of e] read_begin_outcomes(2) [OF assms(2), of e]
    read_begin_outcomes(3) [OF assms(3), of e]
    order_status.reachable_safe delivery.reachable_safe stock_level.reachable_safe by blast

theorem read_requests_safe_witness:
  "\<exists>v. stock_level_begin sunny_env (fresh_world sunny_state (zero_stock_level_ctx\<lparr>sl_w_id := 1, sl_threshold := 15\<rparr>)) = Inr v \<and>
     request_safe (sl_run sunny_env) True {UninitRead, SignedOverflow} v"
proof -
  let ?c = "zero_stock_level_ctx\<lparr>sl_w_id := 1, sl_threshold := 15\<rparr>"
  have "fresh_request sunny_state zero_order_status_ctx (fresh_world sunny_state zero_order_status_ctx :: os_world)"
      "fresh_request sunny_state zero_delivery_ctx (fresh_world sunny_state zero_delivery_ctx :: dl_world)"
      "fresh_request sunny_state ?c (fresh_world sunny_state ?c :: sl_world)"
    by (rule fresh_world_request, simp)+
  from read_requests_safe [OF this, of sunny_env] show ?thesis
    by auto
qed

text \<open>
  OrderStatus and Delivery answer \<open>"status": "ok"\<close> whatever the commit did: for every reply,
  an error included, the callback sends the same success response, with no retry.
\<close>

lemma commit_errors_ignored:
  "run_chain os_run [r] (waiting_world st c l Os_on_commit) =
     Inr (finished_world st (l @ [H2o_send_inline (Yajl [Map_open, Jstring (c_str ''status''), Jstring (c_str ''ok''),
       Map_close]), Fdb_transaction_destroy, Fdb_future_destroy])) \<and>
   run_chain dl_run [r] (waiting_world st d l Dl_on_commit) =
     Inr (finished_world st (l @ [H2o_send_inline (Yajl [Map_open, Jstring (c_str ''status''), Jstring (c_str ''ok''),
       Jstring (c_str ''carrier''), Jinteger (sint (dl_carrier_id d)), Map_close]),
       Fdb_transaction_destroy, Fdb_future_destroy]))"
  using run_chain_finish [of os_run Os_on_commit r st c l c]
    run_chain_finish [of dl_run Dl_on_commit r st d l d]
  by (simp add: os_on_commit_def dl_on_commit_def del: run_chain.simps)



end
