(* ===== verification/Query_Params.thy ===== *)
theory Query_Params
  imports Tpcc_Kv "HOL-Library.Sublist"
begin

text \<open>
  Query strings: \<open>get_query_param\<close> of \<open>src/utility.c\<close> and \<open>get_query_number\<close> of
  \<open>src/handlers/tfb_handlers.c\<close>. A pointer into the request is an offset; the bytes of the request
  buffer from \<open>path.base\<close> on are a parameter, because \<open>get_query_number\<close> reads past the query string.
  \<open>atoi\<close> is the C library's, with its undefined overflow as a fault.
\<close>

section \<open>Finding a parameter\<close>

abbreviation amp :: byte where "amp \<equiv> 38"

text \<open>\<open>memchr(p, '&', remaining)\<close>: the offset of the first \<open>&\<close> from \<open>p\<close> on.\<close>

definition memchr_amp :: "byte list \<Rightarrow> nat \<Rightarrow> nat option" where
  "memchr_amp query p =
     (if amp \<in> set (drop p query) then Some (p + length (takeWhile (\<lambda>b. b \<noteq> amp) (drop p query))) else None)"

lemma takeWhile_shorter: "amp \<in> set xs \<Longrightarrow> length (takeWhile (\<lambda>b. b \<noteq> amp) xs) < length xs"
  by (induction xs) auto

lemma in_set_drop_nth: "p \<le> j \<Longrightarrow> j < length xs \<Longrightarrow> xs ! j \<in> set (drop p xs)"
  using nth_mem [of "j - p" "drop p xs"] by simp

lemma memchr_amp_bounds:
  assumes "memchr_amp query p = Some n"
  shows "p \<le> n" and "n < length query" and "query ! n = amp" and "\<forall>i. p \<le> i \<and> i < n \<longrightarrow> query ! i \<noteq> amp"
proof -
  let ?t = "takeWhile (\<lambda>b. b \<noteq> amp) (drop p query)"
  have n: "n = p + length ?t" and m: "amp \<in> set (drop p query)"
    using assms by (auto simp: memchr_amp_def split: if_splits)
  show "p \<le> n" using n by simp
  have l: "length ?t < length (drop p query)"
    using m by (rule takeWhile_shorter)
  then show "n < length query" using n by simp
  show "query ! n = amp"
    using nth_length_takeWhile [OF l] l n by simp
  show "\<forall>i. p \<le> i \<and> i < n \<longrightarrow> query ! i \<noteq> amp"
  proof (intro allI impI)
    fix i assume i: "p \<le> i \<and> i < n"
    then have k: "i - p < length ?t" using n by linarith
    then have "?t ! (i - p) = drop p query ! (i - p)" by (rule takeWhile_nth)
    moreover have "?t ! (i - p) \<in> set ?t" using k by simp
    ultimately show "query ! i \<noteq> amp" using i l k by (auto dest: set_takeWhileD)
  qed
qed

function get_query_param_from :: "byte list \<Rightarrow> byte list \<Rightarrow> nat \<Rightarrow> nat option" where
  "get_query_param_from query name p =
     (if p < length query
      then if length query - p \<ge> length name \<and> take (length name) (drop p query) = name
           then Some (p + length name)
           else case memchr_amp query p of
                  None \<Rightarrow> None
                | Some n \<Rightarrow> get_query_param_from query name (n + 1)
      else None)"
  by pat_completeness auto
termination
  by (relation "measure (\<lambda>(query, name, p). length query - p)") (auto dest: memchr_amp_bounds(1))

declare get_query_param_from.simps [simp del]

definition get_query_param :: "byte list \<Rightarrow> byte list \<Rightarrow> nat option" where
  "get_query_param query name = get_query_param_from query name 0"

text \<open>Where a parameter may start: at the beginning and after every \<open>&\<close>.\<close>

definition param_start :: "byte list \<Rightarrow> nat \<Rightarrow> bool" where
  "param_start query p \<longleftrightarrow> p < length query \<and> (p = 0 \<or> query ! (p - 1) = amp)"

definition param_at :: "byte list \<Rightarrow> byte list \<Rightarrow> nat \<Rightarrow> bool" where
  "param_at query name p \<longleftrightarrow> param_start query p \<and> prefix name (drop p query)"

lemma match_iff_prefix:
  "length query - p \<ge> length name \<and> take (length name) (drop p query) = name \<longleftrightarrow> prefix name (drop p query)"
proof
  assume "length query - p \<ge> length name \<and> take (length name) (drop p query) = name"
  then show "prefix name (drop p query)" using take_is_prefix [of "length name" "drop p query"] by simp
next
  assume a: "prefix name (drop p query)"
  then have "take (length name) (drop p query) = name" by (auto simp: prefix_def)
  then show "length query - p \<ge> length name \<and> take (length name) (drop p query) = name"
    using prefix_length_le [OF a] by simp
qed

text \<open>The search from a place where a parameter may start finds the first one that matches from there on.\<close>

text \<open>The end of the name of the first parameter with that name from a position on, if there is one.\<close>

definition first_param :: "byte list \<Rightarrow> byte list \<Rightarrow> nat \<Rightarrow> nat option \<Rightarrow> bool" where
  "first_param query name p r \<longleftrightarrow>
     (case r of
        None \<Rightarrow> \<forall>q\<ge>p. \<not> param_at query name q
      | Some k \<Rightarrow> \<exists>q\<ge>p. k = q + length name \<and> param_at query name q \<and> (\<forall>i\<ge>p. i < q \<longrightarrow> \<not> param_at query name i))"

lemma first_param_later:
  assumes "first_param query name m r" and "p \<le> m" and "\<And>i. p \<le> i \<Longrightarrow> i < m \<Longrightarrow> \<not> param_at query name i"
  shows "first_param query name p r"
proof (cases r)
  case None
  then show ?thesis using assms by (auto simp: first_param_def not_le [symmetric])
next
  case (Some k)
  then obtain q where q: "m \<le> q" "k = q + length name" "param_at query name q" "\<forall>i\<ge>m. i < q \<longrightarrow> \<not> param_at query name i"
    using assms(1) by (auto simp: first_param_def)
  have "\<not> param_at query name i" if "p \<le> i" "i < q" for i
    using assms(3) [of i] q(4) that by (cases "i < m") auto
  then show ?thesis using Some q assms(2) by (auto simp: first_param_def)
qed

text \<open>Without a separator no parameter starts.\<close>

lemma no_param_before_amp:
  assumes "\<not> prefix name (drop p query)" and "\<And>j. p \<le> j \<Longrightarrow> j < m \<Longrightarrow> query ! j \<noteq> amp" and "p \<le> i" and "i \<le> m"
  shows "\<not> param_at query name i"
proof (cases "i = p")
  case True
  then show ?thesis using assms(1) by (simp add: param_at_def)
next
  case False
  then have "query ! (i - 1) \<noteq> amp" using assms(2) [of "i - 1"] assms(3,4) by simp
  then show ?thesis using False assms(3) by (simp add: param_at_def param_start_def)
qed

lemma memchr_amp_absent:
  assumes "memchr_amp query p = None" and "p \<le> j" and "j < length query"
  shows "query ! j \<noteq> amp"
  using assms in_set_drop_nth [of p j query] by (auto simp: memchr_amp_def split: if_splits)

lemma get_query_param_from_spec:
  "p = 0 \<or> query ! (p - 1) = amp \<Longrightarrow> first_param query name p (get_query_param_from query name p)"
proof (induction query name p rule: get_query_param_from.induct)
  case (1 query name p)
  note step = get_query_param_from.simps [of query name p] match_iff_prefix [of name query p]
  show ?case
  proof (cases "p < length query \<and> \<not> prefix name (drop p query)")
    case False
    then show ?thesis using step 1(2) by (auto simp: first_param_def param_at_def param_start_def)
  next
    case no: True
    show ?thesis
    proof (cases "memchr_amp query p")
      case None
      have "\<not> param_at query name i" if "p \<le> i" for i
        using no_param_before_amp [OF _ memchr_amp_absent [OF None] that, of name] no
        by (cases "i \<le> length query") (auto simp: param_at_def param_start_def)
      then show ?thesis using step no None by (auto simp: first_param_def)
    next
      case (Some n)
      note b = memchr_amp_bounds [OF Some]
      have "first_param query name (n + 1) (get_query_param_from query name (n + 1))"
        using 1(1) [OF _ _ Some] no step(2) b(3) by auto
      then have "first_param query name p (get_query_param_from query name (n + 1))"
        by (rule first_param_later) (use no_param_before_amp [of name p query n] no b(1,4) in auto)
      then show ?thesis using step no Some by auto
    qed
  qed
qed

section \<open>The number of queries\<close>

definition TFB_QUERIES_PARAMETER :: "byte list" where "TFB_QUERIES_PARAMETER = c_str ''queries=''"
definition TFB_MAX_QUERIES :: int where "TFB_MAX_QUERIES = 500"

text \<open>\<open>atoi\<close> at an offset of the buffer: white space, a sign, digits up to the first other byte.\<close>

definition is_space :: "byte \<Rightarrow> bool" where
  "is_space b \<longleftrightarrow> b = 32 \<or> 9 \<le> b \<and> b \<le> 13"

definition is_digit :: "byte \<Rightarrow> bool" where
  "is_digit b \<longleftrightarrow> 48 \<le> b \<and> b \<le> 57"

fun digits_value :: "int \<Rightarrow> byte list \<Rightarrow> int result" where
  "digits_value acc [] = Inl OutOfBounds"
| "digits_value acc (b # bs) = (if is_digit b then digits_value (acc * 10 + (uint b - 48)) bs else Inr acc)"

definition atoi :: "byte list \<Rightarrow> int result" where
  "atoi bs =
     (case dropWhile is_space bs of
        [] \<Rightarrow> Inl OutOfBounds
      | b # rest \<Rightarrow>
          bindR (if b = 45 then bindR (digits_value 0 rest) (\<lambda>v. Inr (- v))
                 else if b = 43 then digits_value 0 rest
                 else digits_value 0 (b # rest)) (\<lambda>v.
            guardR (- (2 ^ 31) \<le> v \<and> v < 2 ^ 31) SignedOverflow (Inr v)))"

text \<open>
  \<open>get_query_number\<close>: \<open>buf\<close> is the buffer from \<open>path.base\<close> on, \<open>path_len\<close> the length of the path, and
  \<open>query_at\<close> the offset of the question mark, \<open>None\<close> for \<open>SIZE_MAX\<close>. The pointer that
  \<open>get_query_param\<close> returns is already behind the name; the length of the name is added once more.
\<close>

definition get_query_number :: "byte list \<Rightarrow> nat \<Rightarrow> nat option \<Rightarrow> int result" where
  "get_query_number buf path_len query_at =
     bindR (case query_at of
              None \<Rightarrow> Inr 0
            | Some at \<Rightarrow>
                let qs = take (path_len - at - 1) (drop (at + 1) buf)
                in case get_query_param qs TFB_QUERIES_PARAMETER of
                     None \<Rightarrow> Inr 0
                   | Some p \<Rightarrow> atoi (drop (at + 1 + p + length TFB_QUERIES_PARAMETER) buf)) (\<lambda>n.
       let n = (if n < 1 then 1 else n);
           n = (if n > TFB_MAX_QUERIES then TFB_MAX_QUERIES else n)
       in Inr n)"

lemma get_query_number_clamped:
  "get_query_number buf len at = Inr n \<Longrightarrow> 1 \<le> n \<and> n \<le> 500"
  by (auto simp: get_query_number_def Let_def TFB_MAX_QUERIES_def elim!: bindR_eq_InrE)

text \<open>The parser of a number stops at the first byte that is no digit; without a digit it is zero.\<close>

lemma atoi_no_digit: "\<not> is_space b \<Longrightarrow> \<not> is_digit b \<Longrightarrow> b \<noteq> 43 \<Longrightarrow> b \<noteq> 45 \<Longrightarrow> atoi (b # rest) = Inr 0"
  by (simp add: atoi_def)

lemma atoi_one_digit:
  assumes "is_digit b" "\<not> is_digit c"
  shows "atoi (b # c # rest) = Inr (uint b - 48)"
proof -
  have b: "48 \<le> uint b" "uint b \<le> 57"
    using assms(1) by (simp_all add: is_digit_def word_le_def)
  then have "b \<noteq> 45 \<and> b \<noteq> 43 \<and> \<not> is_space b"
    by (auto simp: is_space_def word_le_def)
  then show ?thesis using assms b by (simp add: atoi_def)
qed

text \<open>What follows the path of a request line in the buffer.\<close>

definition http_version :: "byte list" where
  "http_version = c_str '' HTTP/1.1'' @ [13, 10]"

lemma atoi_behind_digits:
  assumes "length ds \<in> {1, 2, 3}"
  shows "\<exists>n. atoi (drop 8 (ds @ http_version @ rest)) = Inr n \<and> n \<le> 1"
proof -
  have "length ds = Suc 0 \<or> length ds = Suc (Suc 0) \<or> length ds = Suc (Suc (Suc 0))" using assms by auto
  then consider a where "ds = [a]" | a b where "ds = [a, b]" | a b c where "ds = [a, b, c]"
    by (auto simp: length_Suc_conv)
  then show ?thesis
    by cases (simp_all add: http_version_def c_str_def atoi_no_digit atoi_one_digit is_space_def is_digit_def)
qed

section \<open>Properties\<close>

text \<open>
  C35. The search for a query parameter is correct: it returns the offset just behind the name at the first
  place (the start of the string or behind an ampersand) where the string continues with the name, and
  nothing exactly when there is no such place.
\<close>

theorem get_query_param_correct:
  "get_query_param query name =
     (if \<exists>q. param_at query name q then Some ((LEAST q. param_at query name q) + length name) else None)"
proof (cases "get_query_param_from query name 0")
  case None
  then show ?thesis using get_query_param_from_spec [of 0 query name] by (simp add: get_query_param_def first_param_def)
next
  case (Some k)
  then obtain q where q: "k = q + length name" "param_at query name q" "\<forall>i<q. \<not> param_at query name i"
    using get_query_param_from_spec [of 0 query name] by (auto simp: first_param_def)
  then have "(LEAST q. param_at query name q) = q"
    by (intro Least_equality) (auto simp: not_less [symmetric])
  then show ?thesis using q Some by (auto simp: get_query_param_def)
qed

text \<open>
  C36. The value of the \<open>queries\<close> parameter is not read: when the query string is \<open>queries=\<close> and one to
  three bytes of value, followed in the buffer by the protocol version of the request line, the number of
  queries is one whatever the value, because the name is skipped twice.
\<close>

theorem get_query_number_ignores_value:
  assumes "length ds \<in> {1, 2, 3}"
  shows "get_query_number (path @ [63] @ TFB_QUERIES_PARAMETER @ ds @ http_version @ rest)
           (length path + 9 + length ds) (Some (length path)) = Inr 1"
proof -
  have 1: "get_query_param (TFB_QUERIES_PARAMETER @ ds) TFB_QUERIES_PARAMETER = Some 8"
    by (subst get_query_param_def, subst get_query_param_from.simps) (simp add: TFB_QUERIES_PARAMETER_def c_str_def)
  have 2: "length TFB_QUERIES_PARAMETER = 8" by (simp add: TFB_QUERIES_PARAMETER_def c_str_def)
  obtain n where "atoi (drop 8 (ds @ http_version @ rest)) = Inr n" "n \<le> 1"
    using atoi_behind_digits [OF assms] by blast
  then show ?thesis
    using 1 2 by (simp add: get_query_number_def TFB_MAX_QUERIES_def Let_def)
qed

theorem get_query_number_ignores_value_witness:
  "get_query_number (c_str ''/queries?queries=500 HTTP/1.1'' @ [13, 10] @ c_str ''Host: x'')
     20 (Some (length ''/queries'')) = Inr 1"
  using get_query_number_ignores_value [of "c_str ''500''" "c_str ''/queries''" "c_str ''Host: x''"]
  by (simp add: TFB_QUERIES_PARAMETER_def http_version_def c_str_def)

end
