(* ===== verification/Tfb_Handlers.thy ===== *)
theory Tfb_Handlers
  imports Served_Requests Query_Params
begin

text \<open>
  The TechEmpower routes of \<open>src/handlers/tfb_handlers.h\<close> and \<open>src/handlers/tfb_handlers.c\<close>: plain text,
  JSON, one row, several rows, updates and the in-memory cache. The file's static variables are fields of a
  record; the seed that all requests share is what the environment holds when a handler or a callback
  starts, and is threaded through the draws it makes. The arrays that a context points to are \<open>None\<close> for
  a null pointer and are freed with the context.
\<close>

section \<open>Constants and helpers\<close>

definition TFB_MAX_ID :: u32 where "TFB_MAX_ID = 10000"
definition TFB_WORLD_PREFIX :: bytes where "TFB_WORLD_PREFIX = c_str ''tfb/w/''"
definition TFB_HELLO_RESPONSE :: bytes where "TFB_HELLO_RESPONSE = c_str ''Hello, World!''"

text \<open>The parts of a request the handlers read: the buffer from \<open>path.base\<close> on, \<open>path.len\<close> and \<open>query_at\<close>.\<close>

record http_req =
  rq_buf :: bytes
  rq_path_len :: nat
  rq_query_at :: "nat option"

definition request_number :: "http_req \<Rightarrow> nat result" where
  "request_number rq = bindR (get_query_number (rq_buf rq) (rq_path_len rq) (rq_query_at rq)) (\<lambda>n. Inr (nat n))"

definition get_random_world_id :: "rng \<Rightarrow> u32 \<Rightarrow> (u32 \<times> u32) result" where
  "get_random_world_id rand_r seed =
     bindR (get_random_number rand_r TFB_MAX_ID seed) (\<lambda>(r, seed). Inr (1 + r, seed))"

definition world_key :: "bytes \<Rightarrow> u32 \<Rightarrow> (bytes \<times> nat) result" where
  "world_key buf i =
     bindR (write_bytes buf 0 TFB_WORLD_PREFIX) (\<lambda>buf.
     bindR (write_bytes buf (length TFB_WORLD_PREFIX) (be_bytes 4 i)) (\<lambda>buf.
     Inr (buf, length TFB_WORLD_PREFIX + 4)))"

text \<open>The callers' \<open>uint8_t key[16]\<close> and the bytes they pass on.\<close>

definition key16 :: "(bytes \<Rightarrow> (bytes \<times> nat) result) \<Rightarrow> bytes result" where
  "key16 builder = bindR (builder (replicate 16 0)) (\<lambda>(buf, klen). Inr (take klen buf))"

definition send_json :: "json_event list \<Rightarrow> ('c, 'b) world \<Rightarrow> ('c, 'b) world" where
  "send_json json w = emit (H2o_send_inline (Yajl json)) (emit (H2o_add_content_type ''application/json'') w)"

definition world_object :: "u32 \<Rightarrow> u32 \<Rightarrow> json_event list" where
  "world_object i rn = [Map_open, Jstring (c_str ''id''), Jinteger (uint i), Jstring (c_str ''randomNumber''),
     Jinteger (uint rn), Map_close]"

text \<open>Access through a pointer to an array.\<close>

definition ptr_get :: "'a list option \<Rightarrow> nat \<Rightarrow> 'a result" where
  "ptr_get p i = (case p of None \<Rightarrow> Inl NullDeref | Some xs \<Rightarrow> array_get xs i)"

definition ptr_set :: "'a list option \<Rightarrow> nat \<Rightarrow> 'a \<Rightarrow> 'a list option result" where
  "ptr_set p i x = (case p of None \<Rightarrow> Inl NullDeref | Some xs \<Rightarrow> bindR (array_set xs i x) (\<lambda>xs. Inr (Some xs)))"

text \<open>\<open>calloc(n, sizeof(uint32_t))\<close>; the first argument tells the two arrays of a context apart.\<close>

definition calloc_u32 :: "nat \<Rightarrow> env \<Rightarrow> nat \<Rightarrow> ('c, 'b) world \<Rightarrow> u32 list option" where
  "calloc_u32 which e n w = (if e_calloc_array e which (log w) then Some (replicate n 0) else None)"

text \<open>\<open>for (i = 0; i < n; i++) ctx->ids[i] = get_random_world_id();\<close>\<close>

definition fill_ids :: "rng \<Rightarrow> nat \<Rightarrow> u32 list option \<Rightarrow> u32 \<Rightarrow> (u32 list option \<times> u32) result" where
  "fill_ids rand_r n ids seed =
     forR [0..<n] (\<lambda>i (ids, seed).
       bindR (get_random_world_id rand_r seed) (\<lambda>(id, seed).
       bindR (ptr_set ids i id) (\<lambda>ids. Inr (ids, seed)))) (ids, seed)"

text \<open>The array of objects both list answers consist of.\<close>

definition world_array :: "nat \<Rightarrow> u32 list option \<Rightarrow> u32 list option \<Rightarrow> json_event list result" where
  "world_array n ids rns =
     bindR (forR [0..<n] (\<lambda>i gen.
       bindR (ptr_get ids i) (\<lambda>id.
       bindR (ptr_get rns i) (\<lambda>rn. Inr (gen @ world_object id rn)))) [Array_open]) (\<lambda>gen.
     Inr (gen @ [Array_close]))"

section \<open>Plain text and JSON\<close>

definition plaintext_handler :: "('c, 'b) world \<Rightarrow> ('c, 'b) world" where
  "plaintext_handler w = emit (H2o_send_inline (Raw TFB_HELLO_RESPONSE)) (emit (H2o_add_content_type ''text/plain'') w)"

definition json_handler :: "('c, 'b) world \<Rightarrow> ('c, 'b) world" where
  "json_handler w = send_json [Map_open, Jstring (c_str ''message''), Jstring TFB_HELLO_RESPONSE, Map_close] w"

section \<open>A single row\<close>

record single_query_ctx =
  sq_id :: u32

datatype sq_cb = On_single_query_result

type_synonym sq_world = "(single_query_ctx, sq_cb) world"

definition on_single_query_result :: "fdb_reply \<Rightarrow> sq_world \<Rightarrow> sq_world result" where
  "on_single_query_result future w = with_ctx w (\<lambda>c.
     if r_error future \<noteq> 0
     then release (emit (H2o_send_error_503 ''Service Unavailable'' ''FDB error'') w)
     else case value_of_size 4 future of
            None \<Rightarrow> release (emit (H2o_send_error_503 ''Service Unavailable'' ''World row not found'') w)
          | Some val \<Rightarrow> release (send_json (world_object (sq_id c) (be_word (take 4 val))) w))"

fun sq_run :: "sq_cb \<Rightarrow> fdb_reply \<Rightarrow> sq_world \<Rightarrow> sq_world result" where
  "sq_run On_single_query_result r w = on_single_query_result r w"

definition single_query_begin :: "env \<Rightarrow> sq_world \<Rightarrow> sq_world result" where
  "single_query_begin e = begin_request ''fdb failed'' (\<lambda>w. with_ctx w (\<lambda>c.
     bindR (key16 (\<lambda>b. world_key b (sq_id c))) (\<lambda>key.
       ignore_rc (fdb_async_get e key On_single_query_result w)))) e"

definition db_handler :: "env \<Rightarrow> sq_world \<Rightarrow> sq_world result" where
  "db_handler e w =
     (if \<not> e_calloc e (log w)
      then Inr (emit (H2o_send_error_503 ''Service Unavailable'' ''oom'') w)
      else bindR (get_random_world_id (e_rand_r e) (e_seed e (log w))) (\<lambda>(id, seed).
             single_query_begin e (w\<lparr>ctx := Some \<lparr>sq_id = id\<rparr>\<rparr>)))"

section \<open>Several rows\<close>

record multi_query_ctx =
  mq_num_query :: nat
  mq_num_result :: nat
  mq_ids :: "u32 list option"
  mq_random_numbers :: "u32 list option"
  mq_num_in_progress :: nat

text \<open>
  The callback registered is \<open>multi_query_next\<close> itself, cast to the type of a callback: when the future is
  ready it is called with the future in place of its context and one argument too many.
  \<open>on_multi_query_result\<close> is never registered.
\<close>

datatype mq_cb = Multi_query_next_cast | On_multi_query_result

type_synonym mq_world = "(multi_query_ctx, mq_cb) world"

definition multi_query_next :: "env \<Rightarrow> mq_world \<Rightarrow> mq_world result" where
  "multi_query_next e w = with_ctx w (\<lambda>c.
     if mq_num_result c = mq_num_query c
     then bindR (world_array (mq_num_result c) (mq_ids c) (mq_random_numbers c)) (\<lambda>gen. release (send_json gen w))
     else bindR (ptr_get (mq_ids c) (mq_num_result c)) (\<lambda>id.
          bindR (key16 (\<lambda>b. world_key b id)) (\<lambda>key.
            ignore_rc (fdb_async_get e key Multi_query_next_cast w))))"

definition on_multi_query_result :: "env \<Rightarrow> fdb_reply \<Rightarrow> mq_world \<Rightarrow> mq_world result" where
  "on_multi_query_result e future w = with_ctx w (\<lambda>c.
     if r_error future \<noteq> 0
     then release (emit (H2o_send_error_503 ''Service Unavailable'' ''FDB error'') w)
     else bindR (ptr_set (mq_random_numbers c) (mq_num_result c)
                   (case value_of_size 4 future of None \<Rightarrow> 0 | Some val \<Rightarrow> be_word (take 4 val))) (\<lambda>rns.
          multi_query_next e (w\<lparr>ctx := Some (c\<lparr>mq_random_numbers := rns, mq_num_result := mq_num_result c + 1\<rparr>)\<rparr>)))"

fun mq_run :: "env \<Rightarrow> mq_cb \<Rightarrow> fdb_reply \<Rightarrow> mq_world \<Rightarrow> mq_world result" where
  "mq_run e Multi_query_next_cast r w = Inl TypeConfusion"
| "mq_run e On_multi_query_result r w = on_multi_query_result e r w"

definition queries_begin :: "env \<Rightarrow> mq_world \<Rightarrow> mq_world result" where
  "queries_begin e = begin_request ''fdb failed'' (multi_query_next e) e"

definition queries_handler :: "env \<Rightarrow> http_req \<Rightarrow> mq_world \<Rightarrow> mq_world result" where
  "queries_handler e rq w =
     bindR (request_number rq) (\<lambda>n.
       if \<not> e_calloc e (log w)
       then Inr (emit (H2o_send_error_503 ''Service Unavailable'' ''oom'') w)
       else let ids = calloc_u32 0 e n w; rns = calloc_u32 1 e n w
            in bindR (fill_ids (e_rand_r e) n ids (e_seed e (log w))) (\<lambda>(ids, seed).
                 queries_begin e (w\<lparr>ctx := Some \<lparr>mq_num_query = n, mq_num_result = 0, mq_ids = ids,
                   mq_random_numbers = rns, mq_num_in_progress = 0\<rparr>\<rparr>)))"

section \<open>Updates\<close>

record update_ctx =
  up_num_query :: nat
  up_num_result :: nat
  up_ids :: "u32 list option"
  up_random_numbers :: "u32 list option"
  up_phase :: bool

datatype up_cb = Update_on_read | Update_on_commit

type_synonym up_world = "(update_ctx, up_cb) world"

text \<open>The commit's future is not looked at.\<close>

definition update_on_commit :: "fdb_reply \<Rightarrow> up_world \<Rightarrow> up_world result" where
  "update_on_commit future w = with_ctx w (\<lambda>c.
     bindR (world_array (up_num_result c) (up_ids c) (up_random_numbers c)) (\<lambda>gen. release (send_json gen w)))"

definition write_world :: "update_ctx \<Rightarrow> nat \<Rightarrow> up_world \<Rightarrow> up_world result" where
  "write_world c i w =
     bindR (ptr_get (up_ids c) i) (\<lambda>id.
     bindR (key16 (\<lambda>b. world_key b id)) (\<lambda>key.
     bindR (ptr_get (up_random_numbers c) i) (\<lambda>rn.
       fdb_sync_set key (be_bytes 4 rn) w)))"

definition update_do_writes :: "env \<Rightarrow> up_world \<Rightarrow> up_world result" where
  "update_do_writes e w = with_ctx w (\<lambda>c.
     let c = c\<lparr>up_phase := True\<rparr>; w = w\<lparr>ctx := Some c\<rparr>
     in bindR (forR [0..<up_num_result c] (write_world c) w) (\<lambda>w.
          ignore_rc (fdb_async_commit e Update_on_commit w)))"

text \<open>
  A missing row draws a number that is overwritten at once; the seed moves on by one more draw.
\<close>

definition update_on_read :: "env \<Rightarrow> fdb_reply \<Rightarrow> up_world \<Rightarrow> up_world result" where
  "update_on_read e future w = with_ctx w (\<lambda>c.
     if r_error future \<noteq> 0
     then release (emit (H2o_send_error_503 ''Service Unavailable'' ''FDB error'') w)
     else
       bindR (case value_of_size 4 future of
                None \<Rightarrow> bindR (get_random_world_id (e_rand_r e) (e_seed e (log w))) (\<lambda>(rn, seed).
                          bindR (ptr_set (up_random_numbers c) (up_num_result c) rn) (\<lambda>rns. Inr (rns, seed)))
              | Some val \<Rightarrow> Inr (up_random_numbers c, e_seed e (log w))) (\<lambda>(rns, seed).
       bindR (get_random_world_id (e_rand_r e) seed) (\<lambda>(rn, seed).
       bindR (ptr_set rns (up_num_result c) (rn - 1)) (\<lambda>rns.
       let c = c\<lparr>up_random_numbers := rns, up_num_result := up_num_result c + 1\<rparr>; w = w\<lparr>ctx := Some c\<rparr>
       in if up_num_result c < up_num_query c
          then bindR (ptr_get (up_ids c) (up_num_result c)) (\<lambda>id.
               bindR (key16 (\<lambda>b. world_key b id)) (\<lambda>key.
                 ignore_rc (fdb_async_get e key Update_on_read w)))
          else update_do_writes e w))))"

fun up_run :: "env \<Rightarrow> up_cb \<Rightarrow> fdb_reply \<Rightarrow> up_world \<Rightarrow> up_world result" where
  "up_run e Update_on_read r w = update_on_read e r w"
| "up_run e Update_on_commit r w = update_on_commit r w"

definition updates_begin :: "env \<Rightarrow> up_world \<Rightarrow> up_world result" where
  "updates_begin e = begin_request ''fdb failed'' (\<lambda>w. with_ctx w (\<lambda>c.
     bindR (ptr_get (up_ids c) 0) (\<lambda>id.
     bindR (key16 (\<lambda>b. world_key b id)) (\<lambda>key.
       ignore_rc (fdb_async_get e key Update_on_read w))))) e"

definition updates_handler :: "env \<Rightarrow> http_req \<Rightarrow> up_world \<Rightarrow> up_world result" where
  "updates_handler e rq w =
     bindR (request_number rq) (\<lambda>n.
       if \<not> e_calloc e (log w)
       then Inr (emit (H2o_send_error_503 ''Service Unavailable'' ''oom'') w)
       else let ids = calloc_u32 0 e n w; rns = calloc_u32 1 e n w
            in bindR (fill_ids (e_rand_r e) n ids (e_seed e (log w))) (\<lambda>(ids, seed).
                 updates_begin e (w\<lparr>ctx := Some \<lparr>up_num_query = n, up_num_result = 0, up_ids = ids,
                   up_random_numbers = rns, up_phase = False\<rparr>\<rparr>)))"

section \<open>Cached rows\<close>

text \<open>
  The test \<open>if (g_world_cache)\<close> is on the address of an array and always succeeds, so the fall-back to
  \<open>queries_handler\<close> is never taken.
\<close>

definition cached_worlds_handler :: "env \<Rightarrow> u16 list \<Rightarrow> http_req \<Rightarrow> ('c, 'b) world \<Rightarrow> ('c, 'b) world result" where
  "cached_worlds_handler e cache rq w =
     bindR (request_number rq) (\<lambda>n.
     bindR (forR [0..<n] (\<lambda>i (gen, seed).
              bindR (get_random_world_id (e_rand_r e) seed) (\<lambda>(id, seed).
              bindR (array_get cache (unat id)) (\<lambda>rn.
              Inr (gen @ world_object id (ucast rn), seed)))) ([Array_open], e_seed e (log w))) (\<lambda>(gen, seed).
     Inr (send_json (gen @ [Array_close]) w)))"

section \<open>Registration\<close>

record tfb_globals =
  g_fdb_state :: "fdb_thread_state option"
  g_seed :: "u32 option"
  g_world_cache :: "u16 list"
  g_world_cache_loaded :: bool

text \<open>The file's static variables before \<open>main\<close>.\<close>

definition tfb_statics :: tfb_globals where
  "tfb_statics = \<lparr>g_fdb_state = None, g_seed = None, g_world_cache = replicate 10001 0, g_world_cache_loaded = False\<rparr>"

definition fill_world_cache :: "rng \<Rightarrow> u16 list \<Rightarrow> u16 list result" where
  "fill_world_cache rand_r cache =
     bindR (forR [0..<10001] (\<lambda>i (cache, s).
       case rand_r s of (r, s) \<Rightarrow> bindR (array_set cache i (word_of_int (c_rem (sint r) 10000))) (\<lambda>cache. Inr (cache, s)))
       (cache, 42)) (\<lambda>(cache, s). Inr cache)"

datatype tfb_route = Plaintext | Json | Db | Queries | Updates | Cached_worlds

definition initialize_tfb_handlers ::
  "rng \<Rightarrow> (string \<times> tfb_route) list \<Rightarrow> fdb_thread_state option \<Rightarrow> u32 option \<Rightarrow> tfb_globals \<Rightarrow>
   ((string \<times> tfb_route) list \<times> tfb_globals) result" where
  "initialize_tfb_handlers rand_r hostconf st seed g =
     (let g = g\<lparr>g_fdb_state := st, g_seed := seed\<rparr>
      in bindR (if g_world_cache_loaded g then Inr g
                else bindR (fill_world_cache rand_r (g_world_cache g)) (\<lambda>cache.
                       Inr (g\<lparr>g_world_cache := cache, g_world_cache_loaded := True\<rparr>))) (\<lambda>g.
         Inr (hostconf @ [(''/plaintext'', Plaintext), (''/json'', Json), (''/db'', Db), (''/queries'', Queries),
                (''/updates'', Updates), (''/cached-worlds'', Cached_worlds)], g)))"

section \<open>Draws, keys and arrays\<close>

text \<open>The seed after \<open>i\<close> draws, and the id the next draw gives.\<close>

definition seed_after :: "rng \<Rightarrow> u32 \<Rightarrow> nat \<Rightarrow> u32" where
  "seed_after rand_r s i = ((\<lambda>s. snd (rand_r s)) ^^ i) s"

definition drawn_id :: "rng \<Rightarrow> u32 \<Rightarrow> nat \<Rightarrow> u32" where
  "drawn_id rand_r s i = 1 + (fst (rand_r (seed_after rand_r s i)) mod 10000 + 1)"

lemma seed_after_simps [simp]:
  "seed_after rand_r s 0 = s" "seed_after rand_r s (Suc i) = snd (rand_r (seed_after rand_r s i))"
  by (simp_all add: seed_after_def)

lemma get_random_world_id_eq:
  "get_random_world_id rand_r s = Inr (1 + (fst (rand_r s) mod 10000 + 1), snd (rand_r s))"
  by (simp add: get_random_world_id_def get_random_number_eq TFB_MAX_ID_def)

lemma get_random_world_id_after:
  "get_random_world_id rand_r (seed_after rand_r s i) = Inr (drawn_id rand_r s i, seed_after rand_r s (Suc i))"
  by (simp add: get_random_world_id_eq drawn_id_def)

lemma drawn_id_bounds: "2 \<le> drawn_id rand_r s i" "drawn_id rand_r s i \<le> 10001"
  using one_plus_bounds [of 10000 "fst (rand_r (seed_after rand_r s i))"] by (simp_all add: drawn_id_def)

definition world_row_key :: "u32 \<Rightarrow> bytes" where
  "world_row_key i = TFB_WORLD_PREFIX @ be_bytes 4 i"

lemma key16_world [simp]: "key16 (\<lambda>b. world_key b i) = Inr (world_row_key i)"
  by (simp add: key16_def world_key_def world_row_key_def write_bytes_def TFB_WORLD_PREFIX_def c_str_def)

lemma world_row_key_inject [simp]: "world_row_key i = world_row_key j \<longleftrightarrow> i = j"
  using be_word_be_bytes [of 4 i] be_word_be_bytes [of 4 j] by (auto simp: world_row_key_def)

lemma ptr_simps [simp]:
  "i < length xs \<Longrightarrow> ptr_get (Some xs) i = Inr (xs ! i)"
  "i < length xs \<Longrightarrow> ptr_set (Some xs) i x = Inr (Some (xs[i := x]))"
  "ptr_get None i = Inl NullDeref" "ptr_set (None :: 'a list option) i x = Inl NullDeref"
  by (simp_all add: ptr_get_def ptr_set_def array_simps)

lemma fill_ids_eq:
  assumes "length xs = n"
  shows "fill_ids rand_r n (Some xs) s = Inr (Some (map (drawn_id rand_r s) [0..<n]), seed_after rand_r s n)"
proof -
  have "\<exists>r. fill_ids rand_r n (Some xs) s = Inr r \<and>
      r = (Some (map (drawn_id rand_r s) [0..<n] @ drop n xs), seed_after rand_r s n)"
    unfolding fill_ids_def
  proof (rule forR_upt_invariant)
    fix i r assume i: "i < n" and r: "r = (Some (map (drawn_id rand_r s) [0..<i] @ drop i xs), seed_after rand_r s i)"
    have "drop i xs = xs ! i # drop (Suc i) xs" using i assms by (simp add: Cons_nth_drop_Suc)
    then show "\<exists>r'. (case r of (ids, seed) \<Rightarrow>
        bindR (get_random_world_id rand_r seed) (\<lambda>(id, seed).
        bindR (ptr_set ids i id) (\<lambda>ids. Inr (ids, seed)))) = Inr r' \<and>
      r' = (Some (map (drawn_id rand_r s) [0..<Suc i] @ drop (Suc i) xs), seed_after rand_r s (Suc i))"
      using i assms r by (simp add: get_random_world_id_after list_update_append del: seed_after_simps)
  qed simp
  then show ?thesis using assms by simp
qed

lemma fill_ids_null: "0 < n \<Longrightarrow> fill_ids rand_r n None s = Inl NullDeref"
  by (simp add: fill_ids_def upt_conv_Cons get_random_world_id_eq)

text \<open>The JSON array of the given rows.\<close>

definition worlds_json :: "(u32 \<times> u32) list \<Rightarrow> json_event list" where
  "worlds_json ws = [Array_open] @ concat (map (\<lambda>(i, rn). world_object i rn) ws) @ [Array_close]"

lemma world_array_eq:
  assumes "n \<le> length is" and "n \<le> length rns"
  shows "world_array n (Some is) (Some rns) = Inr (worlds_json (zip (take n is) (take n rns)))"
proof -
  have "forR [0..<k] (\<lambda>i gen.
       bindR (ptr_get (Some is) i) (\<lambda>id.
       bindR (ptr_get (Some rns) i) (\<lambda>rn. Inr (gen @ world_object id rn)))) g =
     Inr (g @ concat (map (\<lambda>(i, rn). world_object i rn) (zip (take k is) (take k rns))))" if "k \<le> n" for k g
    using that
  proof (induction k)
    case (Suc k)
    then show ?case using assms by (simp add: forR_append take_Suc_conv_app_nth)
  qed simp
  then show ?thesis by (simp add: world_array_def worlds_json_def)
qed

text \<open>A request the server has just received.\<close>

definition idle_request :: "fdb_thread_state \<Rightarrow> ('c, 'b) world \<Rightarrow> bool" where
  "idle_request st w \<longleftrightarrow> ctx w = None \<and> fdb_state w = Some st \<and> db st \<noteq> None \<and> \<not> tr w \<and>
     pending w = [] \<and> futures w = 0 \<and> wrappers w = 0 \<and> responses (log w) = 0"

definition idle_world :: "fdb_thread_state option \<Rightarrow> ('c, 'b) world" where
  "idle_world st = \<lparr>ctx = None, fdb_state = st, tr = False, pending = [], futures = 0, wrappers = 0, log = []\<rparr>"

lemma idle_fresh: "idle_request st w \<Longrightarrow> fresh_request st c (w\<lparr>ctx := Some c\<rparr>)"
  by (simp add: idle_request_def fresh_request_def)

lemma idle_oom: "idle_request st w \<Longrightarrow> is_response d \<Longrightarrow> request_state ok rel (emit d w)"
  by (simp add: idle_request_def request_state_def finished_def)

lemma send_json_simps [simp]:
  "ctx (send_json j w) = ctx w" "tr (send_json j w) = tr w" "fdb_state (send_json j w) = fdb_state w"
  "log (send_json j w) = log w @ [H2o_add_content_type ''application/json'', H2o_send_inline (Yajl j)]"
  "send_json j (running_world st c l) =
     running_world st c (l @ [H2o_add_content_type ''application/json'', H2o_send_inline (Yajl j)])"
  by (simp_all add: send_json_def)

lemma send_json_outcome:
  assumes "ctx w = Some c" and "tr w" and "responses (log w) = 0"
  shows "good_outcome ok rel faults w (release (send_json j w))"
  unfolding send_json_def using assms by (intro release_outcome) (auto simp: quiet_def)

section \<open>The callback chains\<close>

lemma sq_run_outcome:
  assumes "alive (\<lambda>_ _. True) b w"
  shows "good_outcome (\<lambda>_ _. True) rel {} w (sq_run b r w)"
proof -
  obtain c where c: "ctx w = Some c" "tr w" "responses (log w) = 0" using assms by (auto simp: alive_def)
  then show ?thesis
    by (cases b) (auto simp: on_single_query_result_def intro!: release_outcome send_json_outcome split: option.split)
qed

interpretation single_query: callback_chain sq_run "\<lambda>_ _. True" rel "{}" for rel
  by unfold_locales (rule sq_run_outcome)

text \<open>What the callbacks of an update rely on.\<close>

definition arrays_ok :: "update_ctx \<Rightarrow> bool" where
  "arrays_ok c \<longleftrightarrow> (\<exists>is rns. up_ids c = Some is \<and> up_random_numbers c = Some rns \<and>
     length is = up_num_query c \<and> length rns = up_num_query c)"

fun up_ok :: "up_cb \<Rightarrow> update_ctx \<Rightarrow> bool" where
  "up_ok Update_on_read c \<longleftrightarrow> arrays_ok c \<and> up_num_result c < up_num_query c"
| "up_ok Update_on_commit c \<longleftrightarrow> arrays_ok c \<and> up_num_result c \<le> up_num_query c"

text \<open>The number that a read leaves in the array.\<close>

definition fresh_number :: "env \<Rightarrow> fdb_reply \<Rightarrow> call list \<Rightarrow> u32" where
  "fresh_number e r l = drawn_id (e_rand_r e) (e_seed e l) (if value_of_size 4 r = None then 1 else 0) - 1"

lemma fresh_number_bounds: "1 \<le> fresh_number e r l" "fresh_number e r l \<le> 10000"
proof -
  define x where "x = fst (e_rand_r e (seed_after (e_rand_r e) (e_seed e l) (if value_of_size 4 r = None then 1 else 0))) mod 10000 + 1"
  have "fresh_number e r l = x" by (simp add: fresh_number_def drawn_id_def x_def)
  then show "1 \<le> fresh_number e r l" "fresh_number e r l \<le> 10000"
    using mod_plus_one_bounds [of 10000] unfolding x_def by simp_all
qed

definition note_number :: "env \<Rightarrow> fdb_reply \<Rightarrow> call list \<Rightarrow> update_ctx \<Rightarrow> update_ctx" where
  "note_number e r l c = c\<lparr>up_random_numbers := map_option (\<lambda>rns. rns[up_num_result c := fresh_number e r l]) (up_random_numbers c),
     up_num_result := up_num_result c + 1\<rparr>"

lemma update_on_read_eq:
  assumes "ctx w = Some c" and "arrays_ok c" and "up_num_result c < up_num_query c" and "r_error r = 0"
  shows "update_on_read e r w =
    (let c' = note_number e r (log w) c; w = w\<lparr>ctx := Some c'\<rparr>
     in if up_num_result c' < up_num_query c'
        then ignore_rc (fdb_async_get e (world_row_key (the (up_ids c) ! up_num_result c')) Update_on_read w)
        else update_do_writes e w)"
proof -
  obtain "is" rns where a: "up_ids c = Some is" "up_random_numbers c = Some rns"
      "length is = up_num_query c" "length rns = up_num_query c"
    using assms(2) by (auto simp: arrays_ok_def)
  let ?s = "e_seed e (log w)"
  have d: "get_random_world_id (e_rand_r e) ?s = Inr (drawn_id (e_rand_r e) ?s 0, seed_after (e_rand_r e) ?s 1)"
      "get_random_world_id (e_rand_r e) (seed_after (e_rand_r e) ?s 1) = Inr (drawn_id (e_rand_r e) ?s 1, seed_after (e_rand_r e) ?s 2)"
    using get_random_world_id_after [of "e_rand_r e" ?s 0] get_random_world_id_after [of "e_rand_r e" ?s 1]
    by (simp_all add: numeral_2_eq_2)
  show ?thesis
    using assms(1,3,4) a d
    by (cases "value_of_size 4 r") (simp_all add: update_on_read_def note_number_def fresh_number_def Let_def)
qed

text \<open>The writes of an update.\<close>

definition world_writes :: "update_ctx \<Rightarrow> call list" where
  "world_writes c = map (\<lambda>i. Fdb_set (world_row_key (the (up_ids c) ! i)) (be_bytes 4 (the (up_random_numbers c) ! i)))
     [0..<up_num_result c]"

lemma update_do_writes_eq:
  assumes "ctx w = Some c" and "tr w" and "arrays_ok c" and "up_num_result c \<le> up_num_query c"
  shows "update_do_writes e w =
    ignore_rc (fdb_async_commit e Update_on_commit (emits (world_writes c) (w\<lparr>ctx := Some (c\<lparr>up_phase := True\<rparr>)\<rparr>)))"
proof -
  obtain "is" rns where a: "up_ids c = Some is" "up_random_numbers c = Some rns"
      "length is = up_num_query c" "length rns = up_num_query c"
    using assms(3) by (auto simp: arrays_ok_def)
  let ?w = "w\<lparr>ctx := Some (c\<lparr>up_phase := True\<rparr>)\<rparr>"
  have "forR [0..<up_num_result c] (write_world (c\<lparr>up_phase := True\<rparr>)) ?w = Inr (emits (world_writes c) ?w)"
    unfolding world_writes_def using a assms by (intro forR_emits) (auto simp: write_world_def)
  then show ?thesis using assms(1) by (simp add: update_do_writes_def)
qed

lemma world_writes_quiet: "list_all is_write (world_writes c)" "list_all (\<lambda>d. \<not> is_response d) (world_writes c)"
  by (simp_all add: world_writes_def list_all_iff)

lemma note_number_ok:
  "arrays_ok c \<Longrightarrow> arrays_ok (note_number e r l c)"
  "up_num_result (note_number e r l c) = up_num_result c + 1" "up_num_query (note_number e r l c) = up_num_query c"
  "up_ids (note_number e r l c) = up_ids c"
  by (auto simp: arrays_ok_def note_number_def)

lemma up_run_outcome:
  assumes "alive up_ok b w"
  shows "good_outcome up_ok (reliable e) {} w (up_run e b r w)"
proof -
  obtain c where c: "ctx w = Some c" "tr w" "responses (log w) = 0" "up_ok b c" using assms by (auto simp: alive_def)
  show ?thesis
  proof (cases b)
    case Update_on_commit
    then obtain "is" rns where a: "up_ids c = Some is" "up_random_numbers c = Some rns"
        "length is = up_num_query c" "length rns = up_num_query c" "up_num_result c \<le> up_num_query c"
      using c(4) by (auto simp: arrays_ok_def)
    then show ?thesis
      using Update_on_commit c by (simp add: update_on_commit_def world_array_eq send_json_outcome)
  next
    case Update_on_read
    then have ok: "arrays_ok c" "up_num_result c < up_num_query c" using c(4) by simp_all
    let ?c = "note_number e r (log w) c"
    have ok': "arrays_ok ?c" using note_number_ok(1) ok(1) by blast
    show ?thesis
    proof (cases "r_error r = 0")
      case False
      then show ?thesis
        using Update_on_read c by (auto simp: update_on_read_def intro!: release_outcome)
    next
      case True
      note eq = update_on_read_eq [OF c(1) ok True, of e]
      show ?thesis
      proof (cases "up_num_result ?c < up_num_query ?c")
        case True
        then show ?thesis
          using Update_on_read eq c ok' by (auto simp: Let_def intro!: async_outcomes(1) [where c = ?c])
      next
        case False
        then have "update_do_writes e (w\<lparr>ctx := Some ?c\<rparr>) =
            ignore_rc (fdb_async_commit e Update_on_commit (emits (world_writes ?c) (w\<lparr>ctx := Some (?c\<lparr>up_phase := True\<rparr>)\<rparr>)))"
          using update_do_writes_eq [of "w\<lparr>ctx := Some ?c\<rparr>" ?c e] c ok' ok(2) by (simp add: note_number_ok)
        moreover have "quiet w (emits (world_writes ?c) (w\<lparr>ctx := Some (?c\<lparr>up_phase := True\<rparr>)\<rparr>))"
          using quiet_trans [OF quiet_ctx quiet_emits [OF world_writes_quiet(2)]] .
        ultimately show ?thesis
          using Update_on_read eq False c ok' ok(2)
          by (auto simp: Let_def note_number_ok arrays_ok_def intro!: async_outcomes(3) [where c = "?c\<lparr>up_phase := True\<rparr>"])
      qed
    qed
  qed
qed

interpretation update: callback_chain "up_run e" up_ok "reliable e" "{}" for e
  by unfold_locales (rule up_run_outcome)

text \<open>A query ends with its callback; an update has a callback for each number still to be drawn, and one for the commit.\<close>

lemma pending_send_json [simp]: "pending (send_json j w) = pending w"
  by (simp add: send_json_def)

lemma sq_run_ranked: "ctx w = Some c \<Longrightarrow> ranked (\<lambda>_ _. 1) (\<lambda>_. 0) r c 1 w (sq_run b r w)"
  by (cases b) (auto simp: on_single_query_result_def intro!: ranked_intros split: option.split)

interpretation single_query_ranked: ranked_chain sq_run "\<lambda>_ _. True" rel "{}" "\<lambda>_ _. 1" "\<lambda>_. 0" for rel
  by unfold_locales (use sq_run_ranked in \<open>simp add: ranked_def\<close>)

fun up_rank :: "up_cb \<Rightarrow> update_ctx \<Rightarrow> nat" where
  "up_rank Update_on_read c = up_num_query c - up_num_result c + 1"
| "up_rank Update_on_commit c = 1"

lemma up_run_ranked:
  assumes "alive up_ok b w" and "ctx w = Some c"
  shows "ranked up_rank (\<lambda>_. 0) r c (up_rank b c) w (up_run e b r w)"
proof -
  have c: "up_ok b c" "tr w" using assms(1,2) by (auto simp: alive_def)
  consider "b = Update_on_commit" | "b = Update_on_read" "r_error r \<noteq> 0" | "b = Update_on_read" "r_error r = 0"
    by (cases b) auto
  then show ?thesis
  proof cases
    case 1
    then show ?thesis
      using assms(2) by (cases "world_array (up_num_result c) (up_ids c) (up_random_numbers c)")
        (auto simp: update_on_commit_def intro!: ranked_intros)
  next
    case 2
    then show ?thesis using assms(2) by (auto simp: update_on_read_def intro!: ranked_intros)
  next
    case 3
    let ?c = "note_number e r (log w) c"
    have ok: "arrays_ok c" "up_num_result c < up_num_query c" "arrays_ok ?c"
      using c(1) 3(1) note_number_ok(1) by auto
    have "ranked up_rank (\<lambda>_. 0) r c (up_rank b c) w (update_do_writes e (w\<lparr>ctx := Some ?c\<rparr>))"
      using update_do_writes_eq [of "w\<lparr>ctx := Some ?c\<rparr>" ?c e] ok c(2) 3(1)
      by (auto simp: note_number_ok retries_writes [OF world_writes_quiet(1)] intro!: ranked_async(3))
    then show ?thesis
      using 3(1) update_on_read_eq [OF assms(2) ok(1,2) 3(2), of e] ok
      by (auto simp: Let_def note_number_ok intro!: ranked_async(1))
  qed
qed

interpretation update_ranked: ranked_chain "up_run e" up_ok "reliable e" "{}" up_rank "\<lambda>_. 0" for e
  using up_run_ranked by unfold_locales (auto simp: ranked_def)

text \<open>Only updates write, and only rows of the World table.\<close>

lemma sq_run_shaped: "shaped (\<lambda>_. False) w \<Longrightarrow> allR (shaped (\<lambda>_. False)) (sq_run b r w)"
  by (cases b) (auto simp: on_single_query_result_def send_json_def intro!: shaped_intros split: option.split)

interpretation single_query_shaping: shaping_chain sq_run "\<lambda>_. False"
  using sq_run_shaped by unfold_locales (auto simp: allR_def)

lemma update_do_writes_shaped: "shaped (\<lambda>_. False) w \<Longrightarrow> allR (shaped (\<lambda>_. False)) (update_do_writes e w)"
  unfolding update_do_writes_def write_world_def
  by (auto simp: world_row_key_def TFB_WORLD_PREFIX_def
      intro!: shaped_intros world_row allR_any [where m = "ptr_get p i" for p i])

lemma up_run_shaped: "shaped (\<lambda>_. False) w \<Longrightarrow> allR (shaped (\<lambda>_. False)) (up_run e b r w)"
proof (cases b)
  case Update_on_read
  assume "shaped (\<lambda>_. False) w"
  then show ?thesis
    unfolding Update_on_read up_run.simps update_on_read_def case_prod_unfold
    by (intro allR_basic(4))
      (auto simp: Let_def intro!: shaped_intros update_do_writes_shaped, intro allR_any,
        auto intro!: shaped_intros update_do_writes_shaped allR_any [where m = "ptr_get p i" for p i])
next
  case Update_on_commit
  assume "shaped (\<lambda>_. False) w"
  then show ?thesis
    using Update_on_commit
    by (auto simp: update_on_commit_def send_json_def
        intro!: shaped_intros allR_any [where m = "world_array n ids rns" for n ids rns])
qed

interpretation update_shaping: shaping_chain "up_run e" "\<lambda>_. False" for e
  using up_run_shaped by unfold_locales (auto simp: allR_def)

lemma world_begun:
  assumes "serving e st"
  shows "single_query_begin e (fresh_world st c1) =
      Inr (waiting_world (counted st) c1 [Fdb_create_transaction, Fdb_get (world_row_key (sq_id c1))] On_single_query_result)"
    and "up_ids c2 = Some ids \<Longrightarrow> ids \<noteq> [] \<Longrightarrow> updates_begin e (fresh_world st c2) =
      Inr (waiting_world (counted st) c2 [Fdb_create_transaction, Fdb_get (world_row_key (ids ! 0))] Update_on_read)"
  using assms
  by (simp_all add: serving_def single_query_begin_def updates_begin_def begin_request_begun reliable_async registered_begun)

lemma world_begin_shaped:
  "allR (shaped (\<lambda>_. False)) (single_query_begin e (fresh_world st c1))"
  "allR (shaped (\<lambda>_. False)) (updates_begin e (fresh_world st c2))"
  unfolding single_query_begin_def updates_begin_def
  by (rule shaped_begin; auto simp: fresh_world_def shaped_def intro!: shaped_intros allR_any [where m = "ptr_get p i" for p i])+

text \<open>
  The reads of an update, one after the other: each leaves a new number, and the last is followed by the
  writes and the commit.
\<close>

definition numbers_drawn :: "nat \<Rightarrow> update_ctx \<Rightarrow> bool" where
  "numbers_drawn k c \<longleftrightarrow> (\<forall>i<k. 1 \<le> the (up_random_numbers c) ! i \<and> the (up_random_numbers c) ! i \<le> 10000)"

lemma note_number_drawn:
  assumes "numbers_drawn (up_num_result c) c" and "arrays_ok c" and "up_num_result c < up_num_query c"
  shows "numbers_drawn (up_num_result c + 1) (note_number e r l c)"
  using assms fresh_number_bounds [of e r l]
  by (auto simp: numbers_drawn_def note_number_def arrays_ok_def nth_list_update less_Suc_eq)

lemma update_reads:
  assumes "reliable e" and "\<forall>r \<in> set rs. r_error r = 0" and "length rs = up_num_query c - up_num_result c"
    and "up_ok Update_on_read c" and "numbers_drawn (up_num_result c) c"
  shows "\<exists>c' l'. run_chain (up_run e) rs (waiting_world st c l Update_on_read) = Inr (waiting_world st c' l' Update_on_commit) \<and>
    up_ids c' = up_ids c \<and> up_num_query c' = up_num_query c \<and> up_num_result c' = up_num_query c \<and> arrays_ok c' \<and>
    numbers_drawn (up_num_query c) c' \<and> writes l' = writes l @ world_writes c' \<and> responses l' = responses l"
  using assms(2-)
proof (induction rs arbitrary: c l)
  case (Cons r rs)
  let ?c = "note_number e r l c" and ?w = "running_world st c l :: up_world"
  have ok: "arrays_ok c" "up_num_result c < up_num_query c" "r_error r = 0" using Cons.prems by simp_all
  have ok': "arrays_ok ?c" using note_number_ok(1) ok(1) by blast
  have drawn: "numbers_drawn (up_num_result ?c) ?c" using note_number_drawn [OF Cons.prems(4) ok(1,2)] by (simp add: note_number_ok)
  have eq: "update_on_read e r ?w =
    (if up_num_result ?c < up_num_query ?c
     then ignore_rc (fdb_async_get e (world_row_key (the (up_ids c) ! up_num_result ?c)) Update_on_read (running_world st ?c l))
     else update_do_writes e (running_world st ?c l))"
    using update_on_read_eq [of ?w c r e] ok by (simp add: Let_def)
  have len: "length rs = up_num_query c - Suc (up_num_result c)" using Cons.prems(2) by simp
  show ?case
  proof (cases "up_num_result ?c < up_num_query ?c")
    case True
    let ?d = "Fdb_get (world_row_key (the (up_ids c) ! up_num_result ?c))"
    have "up_run e Update_on_read r ?w = Inr (registered Update_on_read (running_world st ?c (l @ [?d])))"
      using eq True assms(1) by (simp add: reliable_async)
    from run_chain_continue [where run = "up_run e", OF this] obtain c' l' where
      "run_chain (up_run e) (r # rs) (waiting_world st c l Update_on_read) = Inr (waiting_world st c' l' Update_on_commit)"
      "up_ids c' = up_ids ?c \<and> up_num_query c' = up_num_query ?c \<and> up_num_result c' = up_num_query ?c \<and> arrays_ok c' \<and>
       numbers_drawn (up_num_query ?c) c' \<and> writes l' = writes (l @ [?d, Fdb_future_destroy]) @ world_writes c' \<and>
       responses l' = responses (l @ [?d, Fdb_future_destroy])"
      using Cons.IH [of ?c "l @ [?d, Fdb_future_destroy]"] Cons.prems True ok' drawn len
      by (auto simp: note_number_ok simp del: run_chain.simps)
    then show ?thesis by (auto simp: note_number_ok simp del: run_chain.simps)
  next
    case False
    let ?c' = "?c\<lparr>up_phase := True\<rparr>"
    have rs: "rs = []" using len False by (simp add: note_number_ok)
    have "up_run e Update_on_read r ?w =
        Inr (registered Update_on_commit (running_world st ?c' (l @ world_writes ?c @ [Fdb_commit])))"
      using eq False assms(1) ok' ok(2) update_do_writes_eq [of "running_world st ?c l" ?c e]
      by (simp add: reliable_async note_number_ok)
    from run_chain_continue [where run = "up_run e", OF this]
    have "run_chain (up_run e) [r] (waiting_world st c l Update_on_read) =
        Inr (waiting_world st ?c' (l @ world_writes ?c @ [Fdb_commit, Fdb_future_destroy]) Update_on_commit)"
      by simp
    moreover have "world_writes ?c' = world_writes ?c" "arrays_ok ?c'" using ok' by (simp_all add: world_writes_def arrays_ok_def)
    moreover have "up_num_result ?c = up_num_query c" using False ok(2) by (simp add: note_number_ok)
    moreover have "numbers_drawn (up_num_query c) ?c'" using drawn calculation(4) by (simp add: numbers_drawn_def)
    ultimately show ?thesis
      using rs writes_all [OF world_writes_quiet(1), of ?c]
      by (intro exI [of _ ?c'] exI [of _ "l @ world_writes ?c @ [Fdb_commit, Fdb_future_destroy]"])
        (simp add: note_number_ok del: run_chain.simps)
  qed
qed simp

text \<open>The cache after start-up, and the loop that serves from it.\<close>

lemma fill_world_cache_eq:
  assumes "length cache = 10001"
  shows "\<exists>cache'. fill_world_cache rand_r cache = Inr cache' \<and> length cache' = 10001"
proof -
  have "\<exists>s'. forR [0..<10001] (\<lambda>i (cache, s).
      case rand_r s of (r, s) \<Rightarrow> bindR (array_set cache i (word_of_int (c_rem (sint r) 10000))) (\<lambda>cache. Inr (cache, s))) (cache, 42) = Inr s' \<and>
    length (fst s') = 10001"
    by (rule forR_upt_invariant [where P = "\<lambda>i s. length (fst s) = 10001"])
      (auto simp: assms array_simps split: prod.splits)
  then show ?thesis by (auto simp: fill_world_cache_def)
qed

lemma cache_loop:
  "forR [0..<n] (\<lambda>i (gen, seed).
     bindR (get_random_world_id rand_r seed) (\<lambda>(id, seed).
     bindR (array_get cache (unat id)) (\<lambda>rn.
     Inr (gen @ world_object id (ucast rn), seed)))) (g, s) =
   (if \<exists>i<n. length cache \<le> unat (drawn_id rand_r s i) then Inl OutOfBounds
    else Inr (g @ concat (map (\<lambda>i. world_object (drawn_id rand_r s i) (ucast (cache ! unat (drawn_id rand_r s i)))) [0..<n]),
      seed_after rand_r s n))"
proof (induction n)
  case (Suc n)
  have "(\<exists>i<Suc n. length cache \<le> unat (drawn_id rand_r s i)) \<longleftrightarrow>
      (\<exists>i<n. length cache \<le> unat (drawn_id rand_r s i)) \<or> \<not> unat (drawn_id rand_r s n) < length cache"
    by (auto simp: less_Suc_eq not_less)
  with Suc show ?case
    by (simp add: forR_append get_random_world_id_after array_get_def guardR_def del: seed_after_simps)
qed simp

lemma initialize_tfb_handlers_cache:
  assumes "initialize_tfb_handlers rand_r hc st seed tfb_statics = Inr (routes, g)"
  shows "length (g_world_cache g) = 10001" "g_fdb_state g = st"
  using assms fill_world_cache_eq [of "g_world_cache tfb_statics" rand_r]
  by (auto simp: initialize_tfb_handlers_def tfb_statics_def elim!: bindR_eq_InrE)

lemma request_number_bounds: "request_number rq = Inr n \<Longrightarrow> 1 \<le> n \<and> n \<le> 500"
  using get_query_number_clamped by (fastforce simp: request_number_def elim!: bindR_eq_InrE)

section \<open>Properties\<close>

text \<open>
  C14. A request for one row or for updates, whatever the database and the environment answer: when the number of
  queries can be read and the arrays can be allocated, the handler returns, and in every state the request
  reaches at most one response has been sent, the contexts, arrays, transactions and futures are released
  exactly with it, and no callback faults or touches freed memory.
\<close>

theorem world_requests_safe:
  assumes "idle_request st w1" and "idle_request st w2"
    and "request_number rq = Inr n" and "\<And>k l. e_calloc_array e k l"
  shows "(\<exists>v. db_handler e w1 = Inr v \<and>
      (\<forall>w. (chain_step sq_run)\<^sup>*\<^sup>* v w \<longrightarrow> request_safe sq_run (reliable e) {} w)) \<and>
    (\<exists>v. updates_handler e rq w2 = Inr v \<and>
      (\<forall>w. (chain_step (up_run e))\<^sup>*\<^sup>* v w \<longrightarrow> request_safe (up_run e) (reliable e) {} w))"
proof -
  have 1: "\<exists>v. single_query_begin e (w1\<lparr>ctx := Some c\<rparr>) = Inr v \<and> request_state (\<lambda>_ _. True) (reliable e) v" for c
    unfolding single_query_begin_def
    by (intro begin_request_outcome [OF idle_fresh [OF assms(1)]]) (auto intro!: async_outcomes(1))
  have 2: "\<exists>v. updates_begin e (w2\<lparr>ctx := Some c\<rparr>) = Inr v \<and> request_state up_ok (reliable e) v"
    if "up_ok Update_on_read c" for c
    unfolding updates_begin_def
    by (intro begin_request_outcome [OF idle_fresh [OF assms(2)]])
      (use that in \<open>auto simp: arrays_ok_def intro!: async_outcomes(1)\<close>)
  have "\<exists>v. db_handler e w1 = Inr v \<and> request_state (\<lambda>_ _. True) (reliable e) v"
    using 1 idle_oom [OF assms(1)] by (simp add: db_handler_def get_random_world_id_eq)
  moreover have "\<exists>v. updates_handler e rq w2 = Inr v \<and> request_state up_ok (reliable e) v"
    using 2 idle_oom [OF assms(2)] request_number_bounds [OF assms(3)]
    by (simp add: updates_handler_def assms(3,4) calloc_u32_def fill_ids_eq arrays_ok_def)
  ultimately show ?thesis
    using single_query.reachable_safe update.reachable_safe by blast
qed

theorem world_requests_safe_witness:
  "\<exists>v. updates_handler sunny_env \<lparr>rq_buf = c_str ''/updates '', rq_path_len = 8, rq_query_at = None\<rparr>
       (idle_world (Some sunny_state)) = Inr v \<and>
     request_safe (up_run sunny_env) True {} v"
proof -
  have "idle_request sunny_state (idle_world (Some sunny_state) :: ('c, 'b) world)"
    by (simp add: idle_request_def idle_world_def)
  moreover have "request_number \<lparr>rq_buf = c_str ''/updates '', rq_path_len = 8, rq_query_at = None\<rparr> = Inr 1"
    by (simp add: request_number_def get_query_number_def TFB_MAX_QUERIES_def)
  moreover have "e_calloc_array sunny_env k l" for k l by (simp add: sunny_env_def)
  ultimately show ?thesis
    using world_requests_safe [of sunny_state _ _ _ 1 sunny_env] by (metis sunny_simps(1) rtranclp.rtrancl_refl)
qed

text \<open>
  C13. An update of \<open>n\<close> rows, when the reads do not fail: it reads \<open>n\<close> rows of ids from 2 to 10001,
  draws for each a number from 1 to 10000, writes exactly these \<open>n\<close> rows in order, and answers with the list of
  the ids and their new numbers, whatever the commit reports; then the request is released.
\<close>

theorem updates_write_drawn_numbers:
  assumes "reliable e" and "e_create e [Fdb_create_transaction] = 0" and "e_calloc e []" and "\<And>k l. e_calloc_array e k l"
    and "request_number rq = Inr n" and "db st \<noteq> None"
    and "length rs = n" and "\<forall>r \<in> set rs. r_error r = 0"
  shows "\<exists>is rns w. bindR (updates_handler e rq (idle_world (Some st))) (run_chain (up_run e) (rs @ [commit])) = Inr w \<and>
    finished w \<and> length is = n \<and> length rns = n \<and>
    (\<forall>i<n. 2 \<le> is ! i \<and> is ! i \<le> 10001 \<and> 1 \<le> rns ! i \<and> rns ! i \<le> 10000) \<and>
    writes (log w) = map (\<lambda>(i, rn). Fdb_set (world_row_key i) (be_bytes 4 rn)) (zip is rns) \<and>
    H2o_send_inline (Yajl (worlds_json (zip is rns))) \<in> set (log w)"
proof -
  have n: "1 \<le> n" using request_number_bounds [OF assms(5)] by simp
  define "is" where "is = map (drawn_id (e_rand_r e) (e_seed e [])) [0..<n]"
  define c where "c = \<lparr>up_num_query = n, up_num_result = 0, up_ids = Some is, up_random_numbers = Some (replicate n 0), up_phase = False\<rparr>"
  let ?st = "Some (st\<lparr>active_transactions := active_transactions st + 1\<rparr>)"
  let ?l = "[Fdb_create_transaction, Fdb_get (world_row_key (is ! 0))]"
  have w: "(idle_world (Some st) :: up_world)\<lparr>ctx := Some c\<rparr> = fresh_world st c"
      "log (idle_world (Some st) :: up_world) = []"
    by (simp_all add: fresh_world_def idle_world_def)
  have c: "up_ok Update_on_read c" "numbers_drawn (up_num_result c) c" "length rs = up_num_query c - up_num_result c"
    using n assms(7) by (simp_all add: c_def is_def arrays_ok_def numbers_drawn_def)
  have "updates_handler e rq (idle_world (Some st)) = updates_begin e (fresh_world st c)"
    using assms(3-5) w(1) by (simp add: updates_handler_def calloc_u32_def fill_ids_eq w(2) c_def is_def)
  also have "\<dots> = Inr (waiting_world ?st c ?l Update_on_read)"
    using n assms(1) by (simp add: updates_begin_def begin_request_begun [OF assms(6,2)] reliable_async registered_begun c_def is_def)
  finally have start: "updates_handler e rq (idle_world (Some st)) = Inr (waiting_world ?st c ?l Update_on_read)" .
  obtain c' l' where r: "run_chain (up_run e) rs (waiting_world ?st c ?l Update_on_read) = Inr (waiting_world ?st c' l' Update_on_commit)"
      "up_ids c' = up_ids c" "up_num_query c' = up_num_query c" "up_num_result c' = up_num_query c" "arrays_ok c'"
      "numbers_drawn (up_num_query c) c'" "writes l' = writes ?l @ world_writes c'" "responses l' = responses ?l"
    using update_reads [OF assms(1,8) c(3,1,2), of ?st ?l] by blast
  then obtain rns where rns: "up_random_numbers c' = Some rns" "length rns = n"
    by (auto simp: arrays_ok_def c_def)
  have ids: "up_ids c' = Some is" "up_num_result c' = n" "length is = n" using r by (simp_all add: c_def is_def)
  have "up_run e Update_on_commit commit (running_world ?st c' l') =
      release (running_world ?st c' (l' @ [H2o_add_content_type ''application/json'', H2o_send_inline (Yajl (worlds_json (zip is rns)))]))"
    using ids rns by (simp add: update_on_commit_def world_array_eq)
  from run_chain_finish [where run = "up_run e", OF this]
  have "bindR (updates_handler e rq (idle_world (Some st))) (run_chain (up_run e) (rs @ [commit])) =
      Inr (finished_world ?st (l' @ [H2o_add_content_type ''application/json'', H2o_send_inline (Yajl (worlds_json (zip is rns))),
        Fdb_transaction_destroy, Fdb_future_destroy]))"
    using start r(1) by (simp add: run_chain_append del: run_chain.simps)
  moreover have "world_writes c' = map (\<lambda>(i, rn). Fdb_set (world_row_key i) (be_bytes 4 rn)) (zip is rns)"
    using ids rns by (intro nth_equalityI) (simp_all add: world_writes_def)
  ultimately show ?thesis
    using r(6-8) ids(3) rns
    by (intro exI [of _ "is"] exI [of _ rns])
      (auto simp: finished_def finished_world_def numbers_drawn_def c_def is_def drawn_id_bounds)
qed

theorem updates_write_drawn_numbers_witness:
  "\<exists>w. bindR (updates_handler sunny_env \<lparr>rq_buf = c_str ''/updates '', rq_path_len = 8, rq_query_at = None\<rparr>
       (idle_world (Some sunny_state))) (run_chain (up_run sunny_env) ([ok_reply] @ [ok_reply\<lparr>r_error := 1020\<rparr>])) = Inr w \<and>
     finished w \<and> length (writes (log w)) = 1"
proof -
  have "request_number \<lparr>rq_buf = c_str ''/updates '', rq_path_len = 8, rq_query_at = None\<rparr> = Inr 1"
    by (simp add: request_number_def get_query_number_def TFB_MAX_QUERIES_def)
  moreover have "e_calloc_array sunny_env k l" for k l by (simp add: sunny_env_def)
  ultimately show ?thesis
    using updates_write_drawn_numbers [of sunny_env _ 1 sunny_state "[ok_reply]" "ok_reply\<lparr>r_error := 1020\<rparr>"] by fastforce
qed

text \<open>
  C37. A request for several rows never gets past its first read: with memory and a transaction at hand it reads
  the first row and waits for one callback, and whatever that read returns, firing the callback calls a
  function through a pointer of another type.
\<close>

theorem queries_call_wrong_type:
  assumes "reliable e" and "e_create e [Fdb_create_transaction] = 0" and "e_calloc e []" and "\<And>k l. e_calloc_array e k l"
    and "request_number rq = Inr n" and "db st \<noteq> None"
  shows "\<exists>v. queries_handler e rq (idle_world (Some st)) = Inr v \<and> responses (log v) = 0 \<and>
    log v = [Fdb_create_transaction, Fdb_get (world_row_key (drawn_id (e_rand_r e) (e_seed e []) 0))] \<and>
    (\<exists>b. pending v = [b]) \<and> (\<forall>r. run_chain (mq_run e) [r] v = Inl TypeConfusion)"
proof -
  have n: "1 \<le> n" using request_number_bounds [OF assms(5)] by simp
  define c where "c = \<lparr>mq_num_query = n, mq_num_result = 0, mq_ids = Some (map (drawn_id (e_rand_r e) (e_seed e [])) [0..<n]),
    mq_random_numbers = Some (replicate n 0), mq_num_in_progress = 0\<rparr>"
  have w: "(idle_world (Some st) :: mq_world)\<lparr>ctx := Some c\<rparr> = fresh_world st c" "log (idle_world (Some st) :: mq_world) = []"
    by (simp_all add: fresh_world_def idle_world_def)
  have "queries_handler e rq (idle_world (Some st)) = queries_begin e (fresh_world st c)"
    using assms(3-5) w(1) by (simp add: queries_handler_def calloc_u32_def fill_ids_eq w(2) c_def)
  then show ?thesis
    using n assms(1)
    by (simp add: queries_begin_def begin_request_begun [OF assms(6,2)] multi_query_next_def reliable_async registered_begun c_def)
      (simp add: waiting_world_def future_callback_def)
qed

theorem queries_call_wrong_type_witness:
  "\<exists>v. queries_handler sunny_env \<lparr>rq_buf = c_str ''/queries '', rq_path_len = 8, rq_query_at = None\<rparr>
       (idle_world (Some sunny_state)) = Inr v \<and> run_chain (mq_run sunny_env) [ok_reply] v = Inl TypeConfusion"
proof -
  have "request_number \<lparr>rq_buf = c_str ''/queries '', rq_path_len = 8, rq_query_at = None\<rparr> = Inr 1"
    by (simp add: request_number_def get_query_number_def TFB_MAX_QUERIES_def)
  moreover have "e_calloc_array sunny_env k l" for k l by (simp add: sunny_env_def)
  ultimately show ?thesis
    using queries_call_wrong_type [of sunny_env _ 1 sunny_state] by fastforce
qed



end
