(* ===== verification/Server.thy ===== *)
theory Server
  imports New_Order Payment Read_Txns Tfb_Handlers
begin

text \<open>
  The request routes of the TPC-C transactions (\<open>src/handlers/tpcc_handlers.c\<close>), the weighted dispatch of
  \<open>src/handlers/tpcc_harness.c\<close>, and the start-up and shutdown of the server (\<open>src/main.c\<close>, \<open>src/thread.c\<close>). What
  the option parser, the sockets, the allocator and the database library return are arguments; the loops
  of the threads are in \<open>Worker_Threads\<close>. The two files \<open>main.c\<close> and \<open>thread.c\<close> each have a static \<open>fdb_global\<close> of their own, and
  so does the model.
\<close>

section \<open>Dispatch\<close>

definition NEW_ORDER_WEIGHT :: u32 where "NEW_ORDER_WEIGHT = 45"
definition PAYMENT_WEIGHT :: u32 where "PAYMENT_WEIGHT = 43"
definition ORDER_STATUS_WEIGHT :: u32 where "ORDER_STATUS_WEIGHT = 4"
definition DELIVERY_WEIGHT :: u32 where "DELIVERY_WEIGHT = 4"
definition STOCK_LEVEL_WEIGHT :: u32 where "STOCK_LEVEL_WEIGHT = 4"

lemmas weight_defs = NEW_ORDER_WEIGHT_def PAYMENT_WEIGHT_def ORDER_STATUS_WEIGHT_def DELIVERY_WEIGHT_def STOCK_LEVEL_WEIGHT_def

text \<open>A request in the state that the transaction it was dispatched to left it in.\<close>

datatype tpcc_request =
    In_new_order no_world
  | In_payment pay_world
  | In_order_status os_world
  | In_delivery dl_world
  | In_stock_level sl_world

definition tpcc_harness_dispatch :: "env \<Rightarrow> fdb_thread_state option \<Rightarrow> u32 \<Rightarrow> tpcc_request result" where
  "tpcc_harness_dispatch e st seed =
     bindR (get_random_number (e_rand_r e) 99 seed) (\<lambda>(r, seed).
       if r < NEW_ORDER_WEIGHT
       then bindR (tpcc_new_order_execute e seed (idle_world st)) (\<lambda>w. Inr (In_new_order w))
       else if r < NEW_ORDER_WEIGHT + PAYMENT_WEIGHT
       then bindR (tpcc_payment_execute e seed (idle_world st)) (\<lambda>w. Inr (In_payment w))
       else if r < NEW_ORDER_WEIGHT + PAYMENT_WEIGHT + ORDER_STATUS_WEIGHT
       then bindR (tpcc_order_status_execute e seed (idle_world st)) (\<lambda>w. Inr (In_order_status w))
       else if r < NEW_ORDER_WEIGHT + PAYMENT_WEIGHT + ORDER_STATUS_WEIGHT + DELIVERY_WEIGHT
       then bindR (tpcc_delivery_execute e seed (idle_world st)) (\<lambda>w. Inr (In_delivery w))
       else bindR (tpcc_stock_level_execute e seed (idle_world st)) (\<lambda>w. Inr (In_stock_level w)))"

section \<open>The TPC-C routes\<close>

record handler_state =
  hs_fdb_state :: "fdb_thread_state option"
  hs_seed :: u32

text \<open>The static \<open>g_handler_state\<close> before \<open>main\<close>.\<close>

definition handler_statics :: handler_state where
  "handler_statics = \<lparr>hs_fdb_state = None, hs_seed = 0\<rparr>"

text \<open>\<open>g_handler_state.seed++\<close> and the call; the seed has moved on even when the call goes wrong.\<close>

definition with_seed :: "(fdb_thread_state option \<Rightarrow> u32 \<Rightarrow> 'a result) \<Rightarrow> handler_state \<Rightarrow> handler_state \<times> 'a result" where
  "with_seed f g = (g\<lparr>hs_seed := hs_seed g + 1\<rparr>, f (hs_fdb_state g) (hs_seed g))"

definition tpcc_new_order_handler :: "env \<Rightarrow> handler_state \<Rightarrow> handler_state \<times> no_world result" where
  "tpcc_new_order_handler e = with_seed (\<lambda>st seed. tpcc_new_order_execute e seed (idle_world st))"

definition tpcc_payment_handler :: "env \<Rightarrow> handler_state \<Rightarrow> handler_state \<times> pay_world result" where
  "tpcc_payment_handler e = with_seed (\<lambda>st seed. tpcc_payment_execute e seed (idle_world st))"

definition tpcc_order_status_handler :: "env \<Rightarrow> handler_state \<Rightarrow> handler_state \<times> os_world result" where
  "tpcc_order_status_handler e = with_seed (\<lambda>st seed. tpcc_order_status_execute e seed (idle_world st))"

definition tpcc_delivery_handler :: "env \<Rightarrow> handler_state \<Rightarrow> handler_state \<times> dl_world result" where
  "tpcc_delivery_handler e = with_seed (\<lambda>st seed. tpcc_delivery_execute e seed (idle_world st))"

definition tpcc_stock_level_handler :: "env \<Rightarrow> handler_state \<Rightarrow> handler_state \<times> sl_world result" where
  "tpcc_stock_level_handler e = with_seed (\<lambda>st seed. tpcc_stock_level_execute e seed (idle_world st))"

definition tpcc_harness_handler :: "env \<Rightarrow> handler_state \<Rightarrow> handler_state \<times> tpcc_request result" where
  "tpcc_harness_handler e = with_seed (tpcc_harness_dispatch e)"

datatype route =
    Tfb tfb_route
  | New_order_route
  | Payment_route
  | Order_status_route
  | Delivery_route
  | Stock_level_route
  | Harness_route

definition initialize_tpcc_handlers ::
  "u32 \<Rightarrow> (string \<times> route) list \<Rightarrow> handler_state \<Rightarrow> (string \<times> route) list \<times> handler_state" where
  "initialize_tpcc_handlers now hostconf g =
     (hostconf @ [(''/tpcc/new-order'', New_order_route), (''/tpcc/payment'', Payment_route),
        (''/tpcc/order-status'', Order_status_route), (''/tpcc/delivery'', Delivery_route),
        (''/tpcc/stock-level'', Stock_level_route), (''/tpcc/run'', Harness_route)], g\<lparr>hs_seed := now\<rparr>)"

text \<open>The two functions that only mark their arguments as unused.\<close>

definition cleanup_tpcc_handlers :: "handler_state \<Rightarrow> handler_state" where
  "cleanup_tpcc_handlers g = g"

definition initialize_tpcc_handler_thread_data :: "fdb_thread_state \<Rightarrow> fdb_thread_state" where
  "initialize_tpcc_handler_thread_data thread_data = thread_data"

definition cleanup_tpcc_handler_thread_data :: "fdb_thread_state \<Rightarrow> nat list" where
  "cleanup_tpcc_handler_thread_data st = fdb_thread_cleanup st"

section \<open>The command line\<close>

record config =
  cf_cluster_file :: string
  cf_warehouses :: size_t
  cf_worker_count :: size_t

definition DEFAULT_PORT :: int where "DEFAULT_PORT = 8080"

definition default_config :: config where
  "default_config = \<lparr>cf_cluster_file = ''/etc/foundationdb/fdb.cluster'', cf_warehouses = 1, cf_worker_count = 1\<rparr>"

text \<open>
  One round of the \<open>getopt\<close> loop: the option character with its argument, \<open>?\<close> for an unknown option. On the
  left the exit status. An \<open>int\<close> becomes a \<open>size_t\<close> modulo \<open>2\<^sup>6\<^sup>4\<close>.
\<close>

definition c_atoi :: "string \<Rightarrow> int result" where
  "c_atoi s = atoi (c_str s @ [0])"

definition main_option :: "char \<Rightarrow> string \<Rightarrow> config \<times> int \<Rightarrow> (int + config \<times> int) result" where
  "main_option opt optarg cp = (case cp of (cf, port) \<Rightarrow>
     if opt = CHR ''a'' then bindR (c_atoi optarg) (\<lambda>n. Inr (Inr (cf\<lparr>cf_worker_count := word_of_int n\<rparr>, port)))
     else if opt = CHR ''c'' then Inr (Inr (cf\<lparr>cf_cluster_file := optarg\<rparr>, port))
     else if opt = CHR ''w'' then bindR (c_atoi optarg) (\<lambda>n. Inr (Inr (cf\<lparr>cf_warehouses := word_of_int n\<rparr>, port)))
     else if opt = CHR ''p'' then bindR (c_atoi optarg) (\<lambda>n. Inr (Inr (cf, n)))
     else Inr (Inl (if opt = CHR ''h'' then 0 else 1)))"

fun main_options :: "(char \<times> string) list \<Rightarrow> config \<times> int \<Rightarrow> (int + config \<times> int) result" where
  "main_options [] cp = Inr (Inr cp)"
| "main_options ((opt, optarg) # opts) cp =
     bindR (main_option opt optarg cp) (\<lambda>r. case r of Inl status \<Rightarrow> Inr (Inl status) | Inr cp \<Rightarrow> main_options opts cp)"

section \<open>The listening socket\<close>

datatype syscall = Socket | Set_reuseaddr int | Set_reuseport int | Bind int u16 | Listen int int | Close int

text \<open>
  The results of \<open>socket\<close>, \<open>bind\<close> and \<open>listen\<close> are arguments. The port is truncated to 16 bits.
\<close>

definition create_listening_socket :: "int \<Rightarrow> int \<Rightarrow> int \<Rightarrow> int \<Rightarrow> int \<times> syscall list" where
  "create_listening_socket socket_rc bind_rc listen_rc port =
     (let fd = socket_rc; calls = [Socket]
      in if fd < 0 then (- 1, calls)
         else let calls = calls @ [Set_reuseaddr fd, Set_reuseport fd, Bind fd (word_of_int port)]
         in if bind_rc < 0 then (- 1, calls @ [Close fd])
         else let calls = calls @ [Listen fd 4096]
         in if listen_rc < 0 then (- 1, calls @ [Close fd])
         else (fd, calls))"

section \<open>Start-up and shutdown\<close>

text \<open>What \<open>main\<close> gets from the system and the libraries.\<close>

record boot =
  bt_time :: u32
  bt_rand_r :: rng
  bt_calloc_states :: bool
  bt_calloc_threads :: bool
  bt_select_err :: fdb_error
  bt_setup_err :: fdb_error
  bt_socket :: int
  bt_bind :: int
  bt_listen :: int
  bt_create_database :: "nat \<Rightarrow> fdb_error + nat"

record thread_ctx =
  th_listen_fd :: int
  th_running :: bool
  th_loop :: nat
  th_fdb_state :: fdb_thread_state

definition zero_thread_ctx :: thread_ctx where
  "zero_thread_ctx = \<lparr>th_listen_fd = 0, th_running = False, th_loop = 0,
     th_fdb_state = \<lparr>db = None, ts_loop = 0, active_transactions = 0, max_transactions = 0\<rparr>\<rparr>"

record server =
  sv_config :: config
  sv_port :: int
  sv_fdb_global :: fdb_global
  sv_thread_fdb_global :: fdb_global
  sv_tfb :: tfb_globals
  sv_tpcc :: handler_state
  sv_routes :: "(string \<times> route) list"
  sv_listen_fd :: int
  sv_threads :: "thread_ctx list"

text \<open>The static \<open>fdb_global\<close> of \<open>thread.c\<close>, which only \<open>init_fdb_global\<close> would initialise; \<open>main\<close> does not call it.\<close>

definition thread_fdb_static :: fdb_global where
  "thread_fdb_static = \<lparr>cluster_file = [], thread_states = None, num_threads = 0, network_started = False\<rparr>"

definition init_fdb_global :: "config \<Rightarrow> size_t \<Rightarrow> bool \<Rightarrow> fdb_error \<Rightarrow> fdb_error \<Rightarrow> i32 \<times> fdb_global" where
  "init_fdb_global cf n calloc_ok select_err setup_err =
     fdb_global_init (Some (cf_cluster_file cf)) n calloc_ok select_err setup_err"

definition cleanup_fdb_global :: "fdb_global \<Rightarrow> bool \<times> fdb_global" where
  "cleanup_fdb_global fdb = fdb_global_cleanup fdb"

text \<open>One pass of the loop that starts the workers; the results of the thread's own initialisation are dropped.\<close>

definition start_thread :: "boot \<Rightarrow> int \<Rightarrow> nat \<Rightarrow> thread_ctx list option \<Rightarrow> thread_ctx list option result" where
  "start_thread bt fd i threads =
     bindR (ptr_get threads i) (\<lambda>t.
       ptr_set threads i (t\<lparr>th_listen_fd := fd, th_running := True, th_loop := i,
         th_fdb_state := snd (fdb_thread_init i (bt_create_database bt i))\<rparr>))"

text \<open>\<open>main\<close> up to \<open>fdb_run_network\<close>: an exit status, or the running server.\<close>

definition main_start :: "boot \<Rightarrow> (char \<times> string) list \<Rightarrow> (int + server) result" where
  "main_start bt opts =
     bindR (main_options opts (default_config, DEFAULT_PORT)) (\<lambda>r.
       case r of
         Inl status \<Rightarrow> Inr (Inl status)
       | Inr (cf, port) \<Rightarrow>
           let (rc, fdb) = fdb_global_init (Some (cf_cluster_file cf)) (cf_worker_count cf) (bt_calloc_states bt)
                             (bt_select_err bt) (bt_setup_err bt)
           in if rc \<noteq> 0 then Inr (Inl 1)
              else bindR (initialize_tfb_handlers (bt_rand_r bt) [] None (Some (bt_time bt)) tfb_statics) (\<lambda>(tfb_routes, tfb).
                let (routes, tpcc) = initialize_tpcc_handlers (bt_time bt) (map (\<lambda>(path, h). (path, Tfb h)) tfb_routes) handler_statics;
                    (fd, calls) = create_listening_socket (bt_socket bt) (bt_bind bt) (bt_listen bt) port
                in if fd < 0 then Inr (Inl 1)
                   else let threads = (if bt_calloc_threads bt
                                       then Some (replicate (unat (cf_worker_count cf)) zero_thread_ctx) else None)
                   in bindR (forR [0..<unat (cf_worker_count cf)] (start_thread bt fd) threads) (\<lambda>threads.
                        Inr (Inr \<lparr>sv_config = cf, sv_port = port, sv_fdb_global = fdb, sv_thread_fdb_global = thread_fdb_static,
                          sv_tfb = tfb, sv_tpcc = tpcc, sv_routes = routes, sv_listen_fd = fd,
                          sv_threads = (case threads of None \<Rightarrow> [] | Some ts \<Rightarrow> ts)\<rparr>))))"

text \<open>
  \<open>main\<close> after \<open>fdb_run_network\<close> has returned and every worker has been joined: the databases destroyed, whether the
  network is stopped, and the server.
\<close>

definition main_shutdown :: "server \<Rightarrow> nat list \<times> bool \<times> server" where
  "main_shutdown sv =
     (let dbs = concat (map (\<lambda>t. fdb_thread_cleanup (th_fdb_state t)) (sv_threads sv));
          (stopped, fdb) = cleanup_fdb_global (sv_thread_fdb_global sv)
      in (dbs, stopped, sv\<lparr>sv_threads := [], sv_tpcc := cleanup_tpcc_handlers (sv_tpcc sv), sv_thread_fdb_global := fdb\<rparr>))"

text \<open>The thread's data of \<open>thread.c\<close>, which \<open>main\<close> does not use.\<close>

record thread_context =
  tc_loop :: nat
  tc_fdb_state :: fdb_thread_state
  tc_random_seed :: u32

definition initialize_thread_data :: "nat \<Rightarrow> u64 \<Rightarrow> fdb_error + nat \<Rightarrow> thread_context" where
  "initialize_thread_data loop address created =
     \<lparr>tc_loop = loop, tc_fdb_state = snd (fdb_thread_init loop created), tc_random_seed = ucast address\<rparr>"

definition cleanup_thread_data :: "thread_context \<Rightarrow> nat list" where
  "cleanup_thread_data tc = fdb_thread_cleanup (tc_fdb_state tc)"

section \<open>Facts on the server\<close>

lemma begin_request_null: "fdb_state w = None \<Longrightarrow> begin_request msg first e w = Inl NullDeref"
  by (simp add: begin_request_def fdb_create_transaction_def)

lemma idle_world_simps [simp]:
  "fdb_state (idle_world st) = st" "log (idle_world st) = []" "fdb_state (w\<lparr>ctx := c\<rparr>) = fdb_state w"
  by (simp_all add: idle_world_def)

lemma idle_world_request: "db st \<noteq> None \<Longrightarrow> idle_request st (idle_world (Some st))"
  by (simp add: idle_request_def idle_world_def)

lemmas begin_defs = single_query_begin_def queries_begin_def updates_begin_def payment_begin_def order_status_begin_def
  delivery_begin_def stock_level_begin_def

text \<open>A TPC-C request without a thread state.\<close>

lemma tpcc_null_state:
  assumes "\<And>l. e_calloc e l"
  shows "tpcc_new_order_execute e seed (idle_world None) = Inl DivByZero"
    and "tpcc_payment_execute e seed (idle_world None) \<in> {Inl DivByZero, Inl NullDeref}"
    and "tpcc_order_status_execute e seed (idle_world None) = Inl NullDeref"
    and "tpcc_delivery_execute e seed (idle_world None) = Inl NullDeref"
    and "tpcc_stock_level_execute e seed (idle_world None) = Inl NullDeref"
proof -
  show "tpcc_new_order_execute e seed (idle_world None) = Inl DivByZero"
    by (simp add: tpcc_new_order_execute_def draw_new_order_def get_random_number_zero assms)
  have "pay_c_last (zero_payment_ctx\<lparr>pay_seed := seed\<rparr>) = replicate 16 0" by (simp add: zero_payment_ctx_def)
  from draw_payment_cases [OF this, of "e_rand_r e" seed]
  show "tpcc_payment_execute e seed (idle_world None) \<in> {Inl DivByZero, Inl NullDeref}"
    by (auto simp: tpcc_payment_execute_def assms begin_defs begin_request_null split: if_splits)
  show "tpcc_order_status_execute e seed (idle_world None) = Inl NullDeref"
      "tpcc_stock_level_execute e seed (idle_world None) = Inl NullDeref"
    using read_parameters_in_range [of "e_rand_r e" seed]
    by (auto simp: tpcc_order_status_execute_def tpcc_stock_level_execute_def assms begin_defs begin_request_null)
  show "tpcc_delivery_execute e seed (idle_world None) = Inl NullDeref"
    by (simp add: tpcc_delivery_execute_def assms get_random_number_eq begin_defs begin_request_null)
qed

lemma main_start_state:
  assumes "main_start bt opts = Inr (Inr sv)"
  shows "g_fdb_state (sv_tfb sv) = None" and "hs_fdb_state (sv_tpcc sv) = None"
    and "sv_thread_fdb_global sv = thread_fdb_static" and "network_started (sv_fdb_global sv)"
    and "thread_states (sv_fdb_global sv) = (if bt_calloc_states bt then Some (unat (cf_worker_count (sv_config sv))) else None)"
  using assms initialize_tfb_handlers_cache(2)
  by (auto simp: main_start_def Let_def initialize_tpcc_handlers_def handler_statics_def fdb_global_init_def
      elim!: bindR_eq_InrE split: sum.splits prod.splits if_splits)

text \<open>
  The shutdown cleans up the database handle of every thread, but the \<open>fdb_global\<close> of \<open>thread.c\<close> instead of the
  one \<open>main\<close> set up: the network is not stopped and the array of thread states is not freed.
\<close>

lemma main_shutdown_wrong_global:
  assumes "main_start bt opts = Inr (Inr sv)" and "main_shutdown sv = (dbs, stopped, sv')"
  shows "\<not> stopped \<and> sv_fdb_global sv' = sv_fdb_global sv \<and> network_started (sv_fdb_global sv') \<and>
    set dbs = {d. \<exists>t \<in> set (sv_threads sv). db (th_fdb_state t) = Some d}"
proof -
  have "set (fdb_thread_cleanup st) = {d. db st = Some d}" for st
    by (simp add: fdb_thread_cleanup_def split: option.split) auto
  then show ?thesis
    using assms(2) main_start_state [OF assms(1)]
    by (auto simp: main_shutdown_def cleanup_fdb_global_def fdb_global_cleanup_def thread_fdb_static_def Let_def)
qed

text \<open>A TPC-C request on a thread state with a database.\<close>

lemma tpcc_execute_outcomes:
  assumes "\<And>l. e_calloc e l" and "db st \<noteq> None"
  shows "tpcc_new_order_execute e seed (idle_world (Some st)) = Inl DivByZero"
    and "tpcc_payment_execute e seed (idle_world (Some st)) = Inl DivByZero \<or>
      (\<exists>w. tpcc_payment_execute e seed (idle_world (Some st)) = Inr w \<and> request_state pay_ok (reliable e) w)"
    and "\<exists>w. tpcc_order_status_execute e seed (idle_world (Some st)) = Inr w \<and> request_state (\<lambda>_ _. True) (reliable e) w"
    and "\<exists>w. tpcc_delivery_execute e seed (idle_world (Some st)) = Inr w \<and> request_state (\<lambda>_ _. True) (reliable e) w"
    and "\<exists>w. tpcc_stock_level_execute e seed (idle_world (Some st)) = Inr w \<and> request_state (\<lambda>_ _. True) (reliable e) w"
proof -
  show "tpcc_new_order_execute e seed (idle_world (Some st)) = Inl DivByZero"
    by (simp add: tpcc_new_order_execute_def draw_new_order_def get_random_number_zero assms)
  have f: "fresh_request st c ((idle_world (Some st))\<lparr>ctx := Some c\<rparr>)" for c
    by (rule idle_fresh [OF idle_world_request [OF assms(2)]])
  have "pay_c_last (zero_payment_ctx\<lparr>pay_seed := seed\<rparr>) = replicate 16 0" by (simp add: zero_payment_ctx_def)
  note draw = draw_payment_cases [OF this, of "e_rand_r e" seed]
  show "tpcc_payment_execute e seed (idle_world (Some st)) = Inl DivByZero \<or>
      (\<exists>w. tpcc_payment_execute e seed (idle_world (Some st)) = Inr w \<and> request_state pay_ok (reliable e) w)"
  proof (cases "draw_payment (e_rand_r e) seed (zero_payment_ctx\<lparr>pay_seed := seed\<rparr>)")
    case (Inl x)
    then show ?thesis using draw by (simp add: tpcc_payment_execute_def assms(1) split: if_splits)
  next
    case (Inr c)
    then show ?thesis using payment_begin_outcome [OF f, where e = e] by (simp add: tpcc_payment_execute_def assms(1))
  qed
  obtain c where "draw_order_status (e_rand_r e) seed zero_order_status_ctx = Inr c"
    using read_parameters_in_range by blast
  then show "\<exists>w. tpcc_order_status_execute e seed (idle_world (Some st)) = Inr w \<and> request_state (\<lambda>_ _. True) (reliable e) w"
    using read_begin_outcomes(1) [OF f, where e = e] by (simp add: tpcc_order_status_execute_def assms(1))
  obtain c where "draw_stock_level (e_rand_r e) seed zero_stock_level_ctx = Inr c"
    using read_parameters_in_range by blast
  then show "\<exists>w. tpcc_stock_level_execute e seed (idle_world (Some st)) = Inr w \<and> request_state (\<lambda>_ _. True) (reliable e) w"
    using read_begin_outcomes(3) [OF f, where e = e] by (simp add: tpcc_stock_level_execute_def assms(1))
  show "\<exists>w. tpcc_delivery_execute e seed (idle_world (Some st)) = Inr w \<and> request_state (\<lambda>_ _. True) (reliable e) w"
    using read_begin_outcomes(2) [OF f, where e = e] by (simp add: tpcc_delivery_execute_def assms(1) get_random_number_eq)
qed

text \<open>Which remainders of the random number lead where.\<close>

lemma harness_ranges:
  fixes k :: u32
  assumes "k < 99"
  shows "k + 1 < NEW_ORDER_WEIGHT \<longleftrightarrow> k < 44"
    and "k + 1 < NEW_ORDER_WEIGHT + PAYMENT_WEIGHT \<longleftrightarrow> k < 87"
    and "k + 1 < NEW_ORDER_WEIGHT + PAYMENT_WEIGHT + ORDER_STATUS_WEIGHT \<longleftrightarrow> k < 91"
    and "k + 1 < NEW_ORDER_WEIGHT + PAYMENT_WEIGHT + ORDER_STATUS_WEIGHT + DELIVERY_WEIGHT \<longleftrightarrow> k < 95"
proof -
  have k: "unat k < 99" using assms by (simp add: word_less_nat_alt)
  then have "unat (k + 1) = unat k + 1" by (simp add: unat_plus_if')
  then show "k + 1 < NEW_ORDER_WEIGHT \<longleftrightarrow> k < 44"
      "k + 1 < NEW_ORDER_WEIGHT + PAYMENT_WEIGHT \<longleftrightarrow> k < 87"
      "k + 1 < NEW_ORDER_WEIGHT + PAYMENT_WEIGHT + ORDER_STATUS_WEIGHT \<longleftrightarrow> k < 91"
      "k + 1 < NEW_ORDER_WEIGHT + PAYMENT_WEIGHT + ORDER_STATUS_WEIGHT + DELIVERY_WEIGHT \<longleftrightarrow> k < 95"
    by (simp_all add: weight_defs word_less_nat_alt)
qed

text \<open>A start with two workers on which everything succeeds.\<close>

definition example_boot :: boot where
  "example_boot = \<lparr>bt_time = 1700000000, bt_rand_r = e_rand_r sunny_env, bt_calloc_states = True, bt_calloc_threads = True,
     bt_select_err = 0, bt_setup_err = 0, bt_socket = 3, bt_bind = 0, bt_listen = 0, bt_create_database = (\<lambda>i. Inr (i + 1))\<rparr>"

definition example_options :: "(char \<times> string) list" where
  "example_options = [(CHR ''a'', ''2''), (CHR ''p'', ''80'')]"

lemma example_server:
  "\<exists>sv. main_start example_boot example_options = Inr (Inr sv) \<and> length (sv_threads sv) = 2 \<and>
     (\<forall>t \<in> set (sv_threads sv). db (th_fdb_state t) \<noteq> None)"
proof -
  obtain routes g where "initialize_tfb_handlers (e_rand_r sunny_env) [] None (Some 1700000000) tfb_statics = Inr (routes, g)"
    using fill_world_cache_eq [of "g_world_cache tfb_statics" "e_rand_r sunny_env"]
    by (auto simp: initialize_tfb_handlers_def tfb_statics_def)
  moreover have "c_atoi ''2'' = Inr 2" "c_atoi ''80'' = Inr 80"
    by (simp_all add: c_atoi_def atoi_def c_str_def is_space_def is_digit_def)
  moreover have "\<exists>ts. forR [0..<2] (start_thread example_boot 3) (Some (replicate 2 zero_thread_ctx)) = Inr (Some ts) \<and>
      length ts = 2 \<and> (\<forall>t \<in> set ts. db (th_fdb_state t) \<noteq> None)"
    by (simp add: upt_rec start_thread_def fdb_thread_init_def numeral_2_eq_2 example_boot_def)
  ultimately show ?thesis
    by (auto simp: main_start_def main_option_def default_config_def DEFAULT_PORT_def fdb_global_init_def example_options_def
        initialize_tpcc_handlers_def create_listening_socket_def example_boot_def)
qed

text \<open>The branches of the dispatch by the random number.\<close>

lemma harness_branches:
  assumes "k = fst (e_rand_r e seed) mod 99"
  shows "k < 44 \<Longrightarrow> tpcc_harness_dispatch e st seed =
      bindR (tpcc_new_order_execute e (snd (e_rand_r e seed)) (idle_world st)) (\<lambda>w. Inr (In_new_order w))"
    and "44 \<le> k \<Longrightarrow> k < 87 \<Longrightarrow> tpcc_harness_dispatch e st seed =
      bindR (tpcc_payment_execute e (snd (e_rand_r e seed)) (idle_world st)) (\<lambda>w. Inr (In_payment w))"
    and "87 \<le> k \<Longrightarrow> k < 91 \<Longrightarrow> tpcc_harness_dispatch e st seed =
      bindR (tpcc_order_status_execute e (snd (e_rand_r e seed)) (idle_world st)) (\<lambda>w. Inr (In_order_status w))"
    and "91 \<le> k \<Longrightarrow> k < 95 \<Longrightarrow> tpcc_harness_dispatch e st seed =
      bindR (tpcc_delivery_execute e (snd (e_rand_r e seed)) (idle_world st)) (\<lambda>w. Inr (In_delivery w))"
    and "95 \<le> k \<Longrightarrow> tpcc_harness_dispatch e st seed =
      bindR (tpcc_stock_level_execute e (snd (e_rand_r e seed)) (idle_world st)) (\<lambda>w. Inr (In_stock_level w))"
proof -
  have "unat k < 99" by (simp add: assms unat_mod)
  then have k: "k < 99" by (simp add: word_less_nat_alt)
  have "44 \<le> k" if "87 \<le> k" using order_trans [of 44 87 k] that by simp
  moreover have "87 \<le> k" if "91 \<le> k" using order_trans [of 87 91 k] that by simp
  moreover have "91 \<le> k" if "95 \<le> k" using order_trans [of 91 95 k] that by simp
  ultimately show "k < 44 \<Longrightarrow> tpcc_harness_dispatch e st seed =
      bindR (tpcc_new_order_execute e (snd (e_rand_r e seed)) (idle_world st)) (\<lambda>w. Inr (In_new_order w))"
    "44 \<le> k \<Longrightarrow> k < 87 \<Longrightarrow> tpcc_harness_dispatch e st seed =
      bindR (tpcc_payment_execute e (snd (e_rand_r e seed)) (idle_world st)) (\<lambda>w. Inr (In_payment w))"
    "87 \<le> k \<Longrightarrow> k < 91 \<Longrightarrow> tpcc_harness_dispatch e st seed =
      bindR (tpcc_order_status_execute e (snd (e_rand_r e seed)) (idle_world st)) (\<lambda>w. Inr (In_order_status w))"
    "91 \<le> k \<Longrightarrow> k < 95 \<Longrightarrow> tpcc_harness_dispatch e st seed =
      bindR (tpcc_delivery_execute e (snd (e_rand_r e seed)) (idle_world st)) (\<lambda>w. Inr (In_delivery w))"
    "95 \<le> k \<Longrightarrow> tpcc_harness_dispatch e st seed =
      bindR (tpcc_stock_level_execute e (snd (e_rand_r e seed)) (idle_world st)) (\<lambda>w. Inr (In_stock_level w))"
    using harness_ranges [OF k] by (simp_all add: tpcc_harness_dispatch_def get_random_number_eq assms [symmetric] leD)
qed

section \<open>Properties\<close>



text \<open>
  C40. No request that needs the database works on the server that \<open>main\<close> starts: the state it hands to the routes
  is a null pointer, so that, when memory is there, the three TechEmpower routes, OrderStatus, Delivery and
  StockLevel dereference null, NewOrder divides by zero, and Payment and the benchmark endpoint do one or the
  other, for every seed the routes have reached.
\<close>

theorem database_routes_fault:
  assumes "main_start bt opts = Inr (Inr sv)" and "\<And>l. e_calloc e l" and "\<And>k l. e_calloc_array e k l"
    and "request_number rq = Inr n"
  shows "let tfb = g_fdb_state (sv_tfb sv); g = (sv_tpcc sv)\<lparr>hs_seed := seed\<rparr> in
    db_handler e (idle_world tfb) = Inl NullDeref \<and>
    queries_handler e rq (idle_world tfb) = Inl NullDeref \<and>
    updates_handler e rq (idle_world tfb) = Inl NullDeref \<and>
    snd (tpcc_new_order_handler e g) = Inl DivByZero \<and>
    snd (tpcc_payment_handler e g) \<in> {Inl DivByZero, Inl NullDeref} \<and>
    snd (tpcc_order_status_handler e g) = Inl NullDeref \<and>
    snd (tpcc_delivery_handler e g) = Inl NullDeref \<and>
    snd (tpcc_stock_level_handler e g) = Inl NullDeref \<and>
    snd (tpcc_harness_handler e g) \<in> {Inl DivByZero, Inl NullDeref}"
proof -
  note st = main_start_state(1,2) [OF assms(1)]
  note null = tpcc_null_state [of e, OF assms(2)]
  have "tpcc_harness_dispatch e None seed = Inl DivByZero \<or> tpcc_harness_dispatch e None seed = Inl NullDeref"
    using null(2) [of "snd (e_rand_r e seed)"]
    by (auto simp: tpcc_harness_dispatch_def get_random_number_eq null(1,3-5))
  then show ?thesis
    using null(2) [of seed]
    by (simp add: st null(1,3-5) db_handler_def queries_handler_def updates_handler_def assms(2-4) calloc_u32_def fill_ids_eq
        get_random_world_id_eq begin_defs begin_request_null with_seed_def tpcc_new_order_handler_def tpcc_payment_handler_def
        tpcc_order_status_handler_def tpcc_delivery_handler_def tpcc_stock_level_handler_def tpcc_harness_handler_def)
qed

theorem database_routes_fault_witness:
  "\<exists>sv. main_start example_boot example_options = Inr (Inr sv) \<and> length (sv_threads sv) = 2 \<and>
     db_handler sunny_env (idle_world (g_fdb_state (sv_tfb sv))) = Inl NullDeref"
proof -
  obtain sv where sv: "main_start example_boot example_options = Inr (Inr sv)" "length (sv_threads sv) = 2"
    using example_server by blast
  have a: "e_calloc sunny_env l" "e_calloc_array sunny_env k l" for k l by (simp_all add: sunny_env_def)
  have "request_number \<lparr>rq_buf = [], rq_path_len = 0, rq_query_at = None\<rparr> = Inr 1"
    by (simp add: request_number_def get_query_number_def TFB_MAX_QUERIES_def)
  from database_routes_fault [OF sv(1) a this] sv show ?thesis by (auto simp: Let_def)
qed

end
