(* ===== verification/Worker_Threads.thy ===== *)
theory Worker_Threads
  imports Server
begin

text \<open>
  The threads that run the event loops: \<open>on_accept\<close>, \<open>worker_main\<close> and the end of \<open>main\<close> in \<open>src/main.c\<close>, and
  \<open>event_loop_thread\<close> of \<open>src/thread.c\<close>. What one call of \<open>h2o_evloop_run\<close> does is a parameter: whether it returns at
  all and which events of the listening socket it delivers. The loops can run forever; \<open>None\<close> stands for not returning.
\<close>

section \<open>Accepting connections\<close>

text \<open>A worker's listening socket, and the connections handed to \<open>h2o_accept\<close>.\<close>

record worker =
  wk_fd :: int
  wk_reading :: bool
  wk_open :: bool
  wk_accepted :: "nat list"

text \<open>
  An event of the listening socket: whether h2o reports an error, and the connections that
  \<open>h2o_evloop_socket_accept\<close> returns one after the other until it returns null.
\<close>

record accept_event =
  ev_error :: bool
  ev_connections :: "nat list"

fun accept_loop :: "nat list \<Rightarrow> worker \<Rightarrow> worker" where
  "accept_loop [] wk = wk"
| "accept_loop (sock # socks) wk = accept_loop socks (wk\<lparr>wk_accepted := wk_accepted wk @ [sock]\<rparr>)"

definition on_accept :: "accept_event \<Rightarrow> worker \<Rightarrow> worker" where
  "on_accept ev wk = (if ev_error ev then wk else accept_loop (ev_connections ev) wk)"

section \<open>The loops\<close>

text \<open>
  For each round what \<open>h2o_evloop_run\<close> delivers, \<open>None\<close> if it does not return; events reach \<open>on_accept\<close> while the
  socket is being read.
\<close>

type_synonym evloop = "nat \<Rightarrow> accept_event list option"

definition h2o_evloop_round :: "evloop \<Rightarrow> nat \<Rightarrow> worker \<Rightarrow> worker option" where
  "h2o_evloop_round evloop k wk =
     (case evloop k of None \<Rightarrow> None | Some evs \<Rightarrow> Some (if wk_reading wk then fold on_accept evs wk else wk))"

text \<open>\<open>running k\<close> is the value that the \<open>k\<close>-th test of the loop reads.\<close>

partial_function (option) worker_loop :: "(nat \<Rightarrow> bool) \<Rightarrow> evloop \<Rightarrow> nat \<Rightarrow> worker \<Rightarrow> worker option" where
  "worker_loop running evloop k wk =
     (if running k then Option.bind (h2o_evloop_round evloop k wk) (worker_loop running evloop (Suc k)) else Some wk)"

definition worker_main :: "(nat \<Rightarrow> bool) \<Rightarrow> evloop \<Rightarrow> thread_ctx \<Rightarrow> worker option" where
  "worker_main running evloop tctx =
     (let wk = \<lparr>wk_fd = th_listen_fd tctx, wk_reading = False, wk_open = True, wk_accepted = []\<rparr>;
          wk = wk\<lparr>wk_reading := True\<rparr>
      in Option.bind (worker_loop running evloop 0 wk) (\<lambda>wk.
         let wk = wk\<lparr>wk_reading := False\<rparr> in Some (wk\<lparr>wk_open := False\<rparr>)))"

text \<open>\<open>event_loop_thread\<close>, over the return values of \<open>h2o_evloop_run\<close>; the number of calls made.\<close>

partial_function (option) event_loop_thread :: "(nat \<Rightarrow> i32 option) \<Rightarrow> nat \<Rightarrow> nat option" where
  "event_loop_thread evloop_run k =
     Option.bind (evloop_run k) (\<lambda>rc. if rc = 0 then event_loop_thread evloop_run (Suc k) else Some (Suc k))"

text \<open>
  The end of \<open>main\<close>: each worker is told to stop and joined before the next. \<open>seen i\<close> is how many tests of worker \<open>i\<close>'s
  loop still read the old value.
\<close>

fun join_workers :: "(nat \<Rightarrow> nat) \<Rightarrow> (nat \<Rightarrow> evloop) \<Rightarrow> nat \<Rightarrow> thread_ctx list \<Rightarrow> worker list option" where
  "join_workers seen evloops i [] = Some []"
| "join_workers seen evloops i (t # ts) =
     Option.bind (worker_main (\<lambda>k. k < seen i) (evloops i) (t\<lparr>th_running := False\<rparr>)) (\<lambda>wk.
     Option.bind (join_workers seen evloops (Suc i) ts) (\<lambda>wks. Some (wk # wks)))"

text \<open>\<open>main\<close> from the return of \<open>fdb_run_network\<close> on, if it returns.\<close>

definition main_finish :: "(nat \<Rightarrow> nat) \<Rightarrow> (nat \<Rightarrow> evloop) \<Rightarrow> server \<Rightarrow> (worker list \<times> nat list \<times> bool \<times> server) option" where
  "main_finish seen evloops sv =
     Option.bind (join_workers seen evloops 0 (sv_threads sv)) (\<lambda>wks. Some (wks, main_shutdown sv))"

section \<open>Facts on the loops\<close>

text \<open>The connections that the events of a round offer without an error.\<close>

definition offered :: "accept_event list \<Rightarrow> nat list" where
  "offered evs = concat (map ev_connections (filter (\<lambda>ev. \<not> ev_error ev) evs))"

lemma accept_loop_eq: "accept_loop socks wk = wk\<lparr>wk_accepted := wk_accepted wk @ socks\<rparr>"
  by (induction socks arbitrary: wk) simp_all

lemma on_accept_fold: "fold on_accept evs wk = wk\<lparr>wk_accepted := wk_accepted wk @ offered evs\<rparr>"
  by (induction evs arbitrary: wk) (simp_all add: on_accept_def accept_loop_eq offered_def)

text \<open>The loop returns when the flag is seen down after rounds that all returned, and it has then accepted what they offered.\<close>

lemma worker_loop_returns:
  assumes "wk_reading wk" and "\<And>j. k \<le> j \<Longrightarrow> j < k + n \<Longrightarrow> running j \<and> evloop j \<noteq> None" and "\<not> running (k + n)"
  shows "worker_loop running evloop k wk =
    Some (wk\<lparr>wk_accepted := wk_accepted wk @ concat (map (\<lambda>j. offered (the (evloop j))) [k..<k + n])\<rparr>)"
  using assms
proof (induction n arbitrary: k wk)
  case 0
  then show ?case by (simp add: worker_loop.simps)
next
  case (Suc n)
  obtain evs where e: "running k" "evloop k = Some evs" using Suc.prems(2) [of k] by auto
  let ?wk = "wk\<lparr>wk_accepted := wk_accepted wk @ offered evs\<rparr>"
  have "h2o_evloop_round evloop k wk = Some ?wk"
    using e(2) Suc.prems(1) by (simp add: h2o_evloop_round_def on_accept_fold)
  then have "worker_loop running evloop k wk = worker_loop running evloop (Suc k) ?wk"
    using e(1) by (subst worker_loop.simps) simp
  moreover have "[k..<k + Suc n] = k # [Suc k..<Suc k + n]" by (simp add: upt_conv_Cons)
  ultimately show ?case
    using Suc.IH [of ?wk "Suc k"] Suc.prems e(2) by simp
qed

lemma worker_loop_stuck:
  assumes "worker_loop running evloop k wk = Some wk'" and "\<And>j. k \<le> j \<Longrightarrow> j < m \<Longrightarrow> running j" and "k \<le> j" and "j < m"
  shows "evloop j \<noteq> None"
  using assms
proof (induction "j - k" arbitrary: k wk)
  case 0
  then have "j = k" "running k" by auto
  then show ?case
    using "0.prems"(1) by (auto simp: worker_loop.simps [of running evloop k wk] h2o_evloop_round_def bind_eq_Some_conv split: option.splits)
next
  case (Suc n)
  then have "running k" by auto
  then obtain wk1 where "worker_loop running evloop (Suc k) wk1 = Some wk'"
    using Suc.prems(1) by (auto simp: worker_loop.simps [of running evloop k wk] bind_eq_Some_conv)
  then show ?case using Suc by (intro Suc.hyps(1) [of "Suc k" wk1]) auto
qed

lemma event_loop_thread_returns:
  assumes "\<And>j. k \<le> j \<Longrightarrow> j < k + n \<Longrightarrow> evloop_run j = Some 0" and "evloop_run (k + n) = Some rc" and "rc \<noteq> 0"
  shows "event_loop_thread evloop_run k = Some (Suc (k + n))"
  using assms
proof (induction n arbitrary: k)
  case 0
  then show ?case by (subst event_loop_thread.simps) simp
next
  case (Suc n)
  then show ?case using Suc.IH [of "Suc k"] by (subst event_loop_thread.simps) simp
qed

text \<open>A worker that reads the old value \<open>n\<close> times.\<close>

lemma worker_main_stops:
  "worker_main (\<lambda>k. k < n) evloop t =
     (if \<forall>k < n. evloop k \<noteq> None
      then Some \<lparr>wk_fd = th_listen_fd t, wk_reading = False, wk_open = False,
        wk_accepted = concat (map (\<lambda>k. offered (the (evloop k))) [0..<n])\<rparr>
      else None)"
proof (cases "\<forall>k < n. evloop k \<noteq> None")
  case True
  then show ?thesis
    using worker_loop_returns [of "\<lparr>wk_fd = th_listen_fd t, wk_reading = True, wk_open = True, wk_accepted = []\<rparr>" 0 n "\<lambda>k. k < n" evloop]
    by (simp add: worker_main_def)
next
  case False
  then have "worker_loop (\<lambda>k. k < n) evloop 0 wk = None" for wk
    using worker_loop_stuck [of "\<lambda>k. k < n" evloop 0 wk _ n] by (cases "worker_loop (\<lambda>k. k < n) evloop 0 wk") auto
  then show ?thesis using False by (simp add: worker_main_def)
qed

lemma join_workers_eq:
  "join_workers seen evloops i ts =
     (if \<forall>j < length ts. \<forall>k < seen (i + j). evloops (i + j) k \<noteq> None
      then Some (map (\<lambda>j. \<lparr>wk_fd = th_listen_fd (ts ! j), wk_reading = False, wk_open = False,
        wk_accepted = concat (map (\<lambda>k. offered (the (evloops (i + j) k))) [0..<seen (i + j)])\<rparr>) [0..<length ts])
      else None)"
proof (induction ts arbitrary: i)
  case (Cons t ts)
  let ?P = "\<lambda>i. \<forall>k < seen i. evloops i k \<noteq> None"
  have all: "(\<forall>j < length (t # ts). ?P (i + j)) \<longleftrightarrow> ?P i \<and> (\<forall>j < length ts. ?P (Suc i + j))"
    unfolding length_Cons All_less_Suc2 by simp
  have map: "map f [0..<length (t # ts)] = f 0 # map (\<lambda>j. f (Suc j)) [0..<length ts]" for f :: "nat \<Rightarrow> worker"
    by (simp add: upt_conv_Cons map_Suc_upt [symmetric] comp_def del: upt_Suc)
  show ?case
    unfolding all map by (simp add: Cons.IH worker_main_stops)
qed simp

section \<open>Properties\<close>



end
