(* ===== verification/Loader.thy ===== *)
theory Loader
  imports Tfb_Handlers
begin

text \<open>
  The data loader \<open>src/tpcc_loader.c\<close>. Its blocking calls of the database library are numbered in the order they are
  made, and what each returns, as well as whether a commit took effect, is the environment's choice. The
  transaction's buffered writes and the rows of the store are part of the state, so that what a run leaves in the
  database can be stated. A run can end early: \<open>exit(1)\<close> of \<open>check_fdb\<close>, undefined behaviour, or a loop whose
  condition never fails.
\<close>

section \<open>State and environment\<close>

datatype stop = Exit int | Undefined fault | Forever

type_synonym 'a load = "stop + 'a"

definition undef :: "'a result \<Rightarrow> 'a load" where
  "undef m = (case m of Inl f \<Rightarrow> Inl (Undefined f) | Inr x \<Rightarrow> Inr x)"

text \<open>
  For the \<open>n\<close>-th call: the error of creating a transaction, of waiting for a commit, the error the commit's
  future holds, and whether the store applied the commit.
\<close>

record loader_env =
  le_create :: "nat \<Rightarrow> fdb_error"
  le_block :: "nat \<Rightarrow> fdb_error"
  le_error :: "nat \<Rightarrow> fdb_error"
  le_applied :: "nat \<Rightarrow> bool"
  le_rand_r :: rng
  le_byte_order :: byte_order

record loader =
  ld_seed :: u32
  ld_sets :: "(bytes \<times> bytes) list"
  ld_store :: rows
  ld_calls :: nat

definition BATCH_SIZE :: nat where "BATCH_SIZE = 1000"

definition check_fdb :: "fdb_error \<Rightarrow> 'a \<Rightarrow> 'a load" where
  "check_fdb err s = (if err \<noteq> 0 then Inl (Exit 1) else Inr s)"

text \<open>\<open>fdb_database_create_transaction\<close>, checked.\<close>

definition create_transaction :: "loader_env \<Rightarrow> loader \<Rightarrow> loader load" where
  "create_transaction e s = check_fdb (le_create e (ld_calls s)) (s\<lparr>ld_sets := [], ld_calls := ld_calls s + 1\<rparr>)"

text \<open>\<open>fdb_transaction_set\<close>\<close>

definition transaction_set :: "bytes \<Rightarrow> bytes \<Rightarrow> loader \<Rightarrow> loader" where
  "transaction_set k v s = s\<lparr>ld_sets := ld_sets s @ [(k, v)]\<rparr>"

text \<open>The writes of a transaction, applied in order.\<close>

definition apply_sets :: "(bytes \<times> bytes) list \<Rightarrow> rows \<Rightarrow> rows" where
  "apply_sets kvs st = fold (\<lambda>(k, v) st. st(k \<mapsto> v)) kvs st"

text \<open>
  \<open>fdb_transaction_commit\<close> and \<open>fdb_future_block_until_ready\<close>, checked; the error of the future itself is checked
  in the batches only, not in the final commits.
\<close>

definition commit_wait :: "loader_env \<Rightarrow> bool \<Rightarrow> loader \<Rightarrow> loader load" where
  "commit_wait e check_error s =
     (let n = ld_calls s;
          s = s\<lparr>ld_store := (if le_applied e n then apply_sets (ld_sets s) (ld_store s) else ld_store s), ld_calls := n + 1\<rparr>
      in bindR (check_fdb (le_block e n) s) (\<lambda>s.
         if check_error then check_fdb (le_error e n) s else Inr s))"

text \<open>\<open>fdb_transaction_reset\<close> and \<open>fdb_transaction_destroy\<close> forget the buffered writes.\<close>

definition forget :: "loader \<Rightarrow> loader" where
  "forget s = s\<lparr>ld_sets := []\<rparr>"

definition final_commit :: "loader_env \<Rightarrow> loader \<Rightarrow> loader load" where
  "final_commit e s = bindR (commit_wait e False s) (\<lambda>s. Inr (forget s))"

definition draw :: "loader_env \<Rightarrow> int \<Rightarrow> loader \<Rightarrow> int \<times> loader" where
  "draw e m s = (case le_rand_r e (ld_seed s) of (r, seed) \<Rightarrow> (c_rem (sint r) m, s\<lparr>ld_seed := seed\<rparr>))"

section \<open>Formatted output\<close>

text \<open>\<open>%u\<close>, and \<open>%03u\<close>.\<close>

fun decimal :: "nat \<Rightarrow> bytes" where
  "decimal n = (if n < 10 then [48 + of_nat n] else decimal (n div 10) @ [48 + of_nat (n mod 10)])"

declare decimal.simps [simp del]

definition dec_u :: "u32 \<Rightarrow> bytes" where
  "dec_u v = decimal (unat v)"

definition dec_03u :: "u32 \<Rightarrow> bytes" where
  "dec_03u v = replicate (3 - length (dec_u v)) 48 @ dec_u v"

text \<open>\<open>snprintf\<close> into a zeroed field of \<open>n\<close> bytes: the text, cut so that a zero byte remains.\<close>

definition snprintf :: "nat \<Rightarrow> bytes \<Rightarrow> bytes" where
  "snprintf n t = take (n - 1) t @ replicate (n - length (take (n - 1) t)) 0"

section \<open>The tables\<close>

definition put :: "bytes result \<Rightarrow> bytes \<Rightarrow> loader \<Rightarrow> loader load" where
  "put key val s = bindR (undef key) (\<lambda>key. Inr (transaction_set key val s))"

text \<open>Commit, check and reset after every full batch.\<close>

definition end_batch :: "loader_env \<Rightarrow> nat \<Rightarrow> nat \<Rightarrow> loader \<Rightarrow> loader load" where
  "end_batch e n i s =
     (if i mod n = 0 then bindR (commit_wait e True s) (\<lambda>s. Inr (forget s)) else Inr s)"

definition load_item :: "loader_env \<Rightarrow> nat \<Rightarrow> loader \<Rightarrow> loader load" where
  "load_item e n s =
     (let i = (of_nat n :: u32);
          (price, s) = draw e 9900 s;
          (im, s) = draw e 10000 s;
          (orig, s) = draw e 10 s;
          iv = zero_item\<lparr>i_name := snprintf 24 (c_str ''Item-'' @ dec_u i), i_price := word_of_int (100 + price),
                 i_im_id := word_of_int (1 + im),
                 i_data := snprintf 50 ((if orig = 0 then c_str ''ORIGINAL_ITEM_DATA_'' else c_str ''item_data_'') @ dec_u i)\<rparr>
      in bindR (put (key64 (\<lambda>b. kv_item_key b i)) (item_bytes (le_byte_order e) iv) s) (end_batch e BATCH_SIZE n))"

definition load_items :: "loader_env \<Rightarrow> loader \<Rightarrow> loader load" where
  "load_items e s =
     bindR (create_transaction e s) (\<lambda>s.
     bindR (forR [1..<Suc (unat ITEM_COUNT)] (load_item e) s) (final_commit e))"

text \<open>\<open>for (uint32_t w = 1; w <= n; w++)\<close> does not end when \<open>n\<close> is the largest value.\<close>

definition u32_loop :: "u32 \<Rightarrow> (nat \<Rightarrow> 's \<Rightarrow> 's load) \<Rightarrow> 's \<Rightarrow> 's load" where
  "u32_loop n f s = (if n = 0xFFFFFFFF then Inl Forever else forR [1..<Suc (unat n)] f s)"

definition load_one_warehouse :: "loader_env \<Rightarrow> nat \<Rightarrow> loader \<Rightarrow> loader load" where
  "load_one_warehouse e n s =
     (let w = (of_nat n :: u32);
          (tax, s) = draw e 2000 s;
          wv = zero_warehouse\<lparr>w_name := snprintf 10 (c_str ''Whse-'' @ dec_u w), w_street_1 := snprintf 20 (dec_u w @ c_str '' Main St''),
                 w_city := snprintf 20 (c_str ''City-'' @ dec_u w), w_state := c_str ''CA'',
                 w_zip := snprintf 9 (c_str ''94000'' @ dec_03u w), w_tax := word_of_int tax, w_ytd := 300000 * 100\<rparr>
      in put (key64 (\<lambda>b. kv_warehouse_key b w)) (warehouse_bytes (le_byte_order e) wv) s)"

definition load_warehouse :: "loader_env \<Rightarrow> i32 \<Rightarrow> loader \<Rightarrow> loader load" where
  "load_warehouse e ws s =
     bindR (create_transaction e s) (\<lambda>s.
     bindR (u32_loop ws (load_one_warehouse e) s) (final_commit e))"

definition load_one_district :: "loader_env \<Rightarrow> nat \<Rightarrow> nat \<Rightarrow> loader \<Rightarrow> loader load" where
  "load_one_district e n m s =
     (let w = (of_nat n :: u32); d = (of_nat m :: u32);
          (tax, s) = draw e 2000 s;
          dv = zero_district\<lparr>d_name := snprintf 10 (c_str ''Dist-'' @ dec_u w @ c_str ''-'' @ dec_u d),
                 d_street_1 := snprintf 20 (dec_u w @ c_str ''-'' @ dec_u d @ c_str '' St''),
                 d_city := snprintf 20 (c_str ''City-'' @ dec_u w), d_state := c_str ''CA'',
                 d_zip := snprintf 9 (c_str ''94000'' @ dec_03u w), d_tax := word_of_int tax, d_ytd := 30000 * 100,
                 d_next_o_id := 3001\<rparr>
      in bindR (put (key64 (\<lambda>b. kv_district_key b w d)) (district_bytes (le_byte_order e) dv) s) (\<lambda>s.
         bindR (undef (kv_encode_next_o_id (replicate 8 0) 3001)) (\<lambda>nbuf.
           put (key64 (\<lambda>b. kv_next_o_id_key b w d)) nbuf s)))"

text \<open>The progress message multiplies the number of warehouses, a signed \<open>int\<close>, by ten.\<close>

definition load_districts_and_next_o_id :: "loader_env \<Rightarrow> i32 \<Rightarrow> loader \<Rightarrow> loader load" where
  "load_districts_and_next_o_id e ws s =
     bindR (undef (schk (sint ws * 10) :: i32 result)) (\<lambda>_.
     bindR (create_transaction e s) (\<lambda>s.
     bindR (u32_loop ws (\<lambda>w. forR [1..<Suc (unat DISTRICTS_PER_WAREHOUSE)] (load_one_district e w)) s) (final_commit e)))"

text \<open>A stub in the source.\<close>

definition load_customer_and_orders :: "loader \<Rightarrow> loader" where
  "load_customer_and_orders s = s"

definition load_one_world :: "loader_env \<Rightarrow> nat \<Rightarrow> loader \<Rightarrow> loader load" where
  "load_one_world e n s =
     (let i = (of_nat n :: u32);
          key = bindR (write_bytes (replicate 16 0) 0 (c_str ''tfb/w/'')) (\<lambda>buf.
                bindR (write_bytes buf 6 (be_bytes 4 i)) (\<lambda>buf. Inr (take 10 buf)));
          (rn, s) = draw e 10000 s
      in bindR (put key (be_bytes 4 (word_of_int rn :: u32)) s) (end_batch e 1000 n))"

definition load_world_table :: "loader_env \<Rightarrow> loader \<Rightarrow> loader load" where
  "load_world_table e s =
     bindR (create_transaction e s) (\<lambda>s.
     bindR (forR [1..<Suc 10000] (load_one_world e) s) (final_commit e))"

section \<open>The program\<close>

text \<open>\<open>-w\<close> and \<open>-c\<close> with the value attached; other arguments are ignored, the last of each kind counts.\<close>

definition loader_arg :: "string \<Rightarrow> i32 \<times> string \<Rightarrow> (i32 \<times> string) result" where
  "loader_arg arg wc = (case wc of (w, c) \<Rightarrow>
     if take 2 arg = ''-w'' then bindR (atoi (c_str (drop 2 arg) @ [0])) (\<lambda>n. Inr (word_of_int n, c))
     else if take 2 arg = ''-c'' then Inr (w, drop 2 arg)
     else Inr (w, c))"

definition loader_args :: "string list \<Rightarrow> (i32 \<times> string) result" where
  "loader_args args = forR args loader_arg (1, ''/etc/foundationdb/fdb.cluster'')"

definition load_all :: "loader_env \<Rightarrow> i32 \<Rightarrow> loader \<Rightarrow> loader load" where
  "load_all e ws s =
     bindR (load_items e s) (\<lambda>s.
     bindR (load_warehouse e ws s) (\<lambda>s.
     bindR (load_districts_and_next_o_id e ws s) (\<lambda>s.
     load_world_table e (load_customer_and_orders s))))"

text \<open>
  \<open>main\<close>: the errors of selecting the API version, of setting up the network, of opening the database and of stopping
  the network are arguments; at the end the rows of the store.
\<close>

definition loader_main ::
  "loader_env \<Rightarrow> fdb_error \<Rightarrow> fdb_error \<Rightarrow> fdb_error \<Rightarrow> fdb_error \<Rightarrow> string list \<Rightarrow> rows \<Rightarrow> rows load" where
  "loader_main e select_err setup_err create_err stop_err args st =
     bindR (undef (loader_args args)) (\<lambda>(ws, file).
     bindR (check_fdb select_err ()) (\<lambda>_.
     bindR (check_fdb setup_err ()) (\<lambda>_.
     bindR (check_fdb create_err ()) (\<lambda>_.
     bindR (load_all e ws \<lparr>ld_seed = 42, ld_sets = [], ld_store = st, ld_calls = 0\<rparr>) (\<lambda>s.
     bindR (check_fdb stop_err ()) (\<lambda>_. Inr (ld_store s)))))))"

section \<open>What the phases write\<close>

text \<open>
  The rows as they are once the open transaction commits. With a store that works, committing, resetting and
  starting a transaction do not change them, and a phase changes them at the keys it writes only.
\<close>

definition view :: "loader \<Rightarrow> rows" where
  "view s = apply_sets (ld_sets s) (ld_store s)"

definition extends :: "bytes set \<Rightarrow> (bytes \<Rightarrow> bytes \<Rightarrow> bool) \<Rightarrow> loader \<Rightarrow> loader \<Rightarrow> bool" where
  "extends K Q s s' \<longleftrightarrow> (\<forall>k. k \<notin> K \<longrightarrow> view s' k = view s k) \<and> (\<forall>k \<in> K. \<exists>v. view s' k = Some v \<and> Q k v)"

text \<open>Commits that report no error are durable; no call reports an error; \<open>rand_r\<close> is not negative.\<close>

definition durable_commits :: "loader_env \<Rightarrow> bool" where
  "durable_commits e \<longleftrightarrow> (\<forall>n. le_error e n = 0 \<longrightarrow> le_applied e n)"

definition no_errors :: "loader_env \<Rightarrow> bool" where
  "no_errors e \<longleftrightarrow> (\<forall>n. le_create e n = 0 \<and> le_block e n = 0 \<and> le_error e n = 0)"

definition rand_r_nonneg :: "rng \<Rightarrow> bool" where
  "rand_r_nonneg rand_r \<longleftrightarrow> (\<forall>seed. 0 \<le> sint (fst (rand_r seed)))"

definition healthy :: "loader_env \<Rightarrow> bool" where
  "healthy e \<longleftrightarrow> durable_commits e \<and> no_errors e \<and> rand_r_nonneg (le_rand_r e)"

lemma view_transaction_set: "view (transaction_set k v s) = (view s)(k \<mapsto> v)"
  by (simp add: view_def transaction_set_def apply_sets_def)

lemma extends_trans: "extends K Q s s' \<Longrightarrow> extends L Q s' s'' \<Longrightarrow> extends (K \<union> L) Q s s''"
  unfolding extends_def by (metis UnCI UnE)

lemma extends_refl: "view s' = view s \<Longrightarrow> extends {} Q s s'"
  by (simp add: extends_def)

lemma extends_view: "extends K Q s s' \<Longrightarrow> view s0 = view s \<Longrightarrow> view s1 = view s' \<Longrightarrow> extends K Q s0 s1"
  by (simp add: extends_def)

lemma put_extends: "Q k v \<Longrightarrow> \<exists>s'. put (Inr k) v s = Inr s' \<and> extends {k} Q s s'"
  by (simp add: put_def undef_def extends_def view_transaction_set)

lemma commit_forget:
  assumes "healthy e"
  shows "\<exists>s'. bindR (commit_wait e b s) (\<lambda>s. Inr (forget s)) = Inr s' \<and> view s' = view s \<and> ld_sets s' = []"
  using assms
  by (simp add: healthy_def durable_commits_def no_errors_def commit_wait_def check_fdb_def forget_def view_def Let_def apply_sets_def)

lemma end_batch_view: "healthy e \<Longrightarrow> \<exists>s'. end_batch e n i s = Inr s' \<and> view s' = view s"
  using commit_forget [of e True s] by (auto simp: end_batch_def)

lemma draw_view:
  assumes "rand_r_nonneg (le_rand_r e)" and "0 < m"
  shows "\<exists>r s'. draw e m s = (r, s') \<and> 0 \<le> r \<and> r < m \<and> view s' = view s"
proof -
  obtain r seed where r: "le_rand_r e (ld_seed s) = (r, seed)" by force
  then have "0 \<le> sint r" using assms(1) by (metis fst_conv rand_r_nonneg_def)
  then show ?thesis using assms(2) r by (simp add: draw_def c_rem_nonneg view_def)
qed

lemma extends_loop:
  assumes "m \<le> n" and "\<And>i s. m \<le> i \<Longrightarrow> i < n \<Longrightarrow> \<exists>s'. f i s = Inr s' \<and> extends (K i) Q s s'"
  shows "\<exists>s'. forR [m..<n] f s = Inr s' \<and> extends (\<Union>i\<in>{m..<n}. K i) Q s s'"
proof (rule forR_range_invariant [where P = "\<lambda>j s'. extends (\<Union>i\<in>{m..<j}. K i) Q s s'"])
  fix i s'' assume i: "m \<le> i" "i < n" and e: "extends (\<Union>i\<in>{m..<i}. K i) Q s s''"
  obtain s' where s': "f i s'' = Inr s'" "extends (K i) Q s'' s'" using assms(2) [OF i] by blast
  have "(\<Union>i\<in>{m..<Suc i}. K i) = (\<Union>i\<in>{m..<i}. K i) \<union> K i" using i by (auto simp: less_Suc_eq)
  then show "\<exists>s'. f i s'' = Inr s' \<and> extends (\<Union>i\<in>{m..<Suc i}. K i) Q s s'"
    using s' extends_trans [OF e s'(2)] by auto
qed (use assms(1) in \<open>auto intro: extends_refl\<close>)

lemma extends_phase:
  assumes "healthy e" and "ld_sets s = []" and "\<And>s. \<exists>s'. loop s = Inr s' \<and> extends K Q s s'"
  shows "\<exists>s'. bindR (create_transaction e s) (\<lambda>s. bindR (loop s) (final_commit e)) = Inr s' \<and> extends K Q s s' \<and> ld_sets s' = []"
proof -
  let ?s = "s\<lparr>ld_sets := [], ld_calls := ld_calls s + 1\<rparr>"
  have 1: "create_transaction e s = Inr ?s" "view ?s = view s"
    using assms(1,2) by (simp_all add: create_transaction_def check_fdb_def healthy_def no_errors_def view_def)
  obtain s1 where s1: "loop ?s = Inr s1" "extends K Q ?s s1" using assms(3) by blast
  obtain s2 where "final_commit e s1 = Inr s2" "view s2 = view s1" "ld_sets s2 = []"
    using commit_forget [OF assms(1), of False s1] by (auto simp: final_commit_def)
  then show ?thesis using 1 s1 extends_view [OF s1(2), of s s2] by simp
qed

section \<open>The rows a load leaves\<close>

inductive loaded_row :: "byte_order \<Rightarrow> bytes \<Rightarrow> bytes \<Rightarrow> bool" for bo where
  item: "item_wf v \<Longrightarrow> 100 \<le> sint (i_price v) \<Longrightarrow> sint (i_price v) < 10000 \<Longrightarrow> 1 \<le> sint (i_im_id v) \<Longrightarrow>
    sint (i_im_id v) \<le> 10000 \<Longrightarrow> loaded_row bo (key_bytes (KItem i)) (item_bytes bo v)"
| warehouse: "warehouse_wf v \<Longrightarrow> 0 \<le> sint (w_tax v) \<Longrightarrow> sint (w_tax v) < 2000 \<Longrightarrow> w_ytd v = 30000000 \<Longrightarrow>
    loaded_row bo (key_bytes (KWarehouse w)) (warehouse_bytes bo v)"
| district: "district_wf v \<Longrightarrow> 0 \<le> sint (d_tax v) \<Longrightarrow> sint (d_tax v) < 2000 \<Longrightarrow> d_ytd v = 3000000 \<Longrightarrow>
    d_next_o_id v = 3001 \<Longrightarrow> loaded_row bo (key_bytes (KDistrict w d)) (district_bytes bo v)"
| counter: "length v = 8 \<Longrightarrow> kv_decode_next_o_id v 8 = Inr 3001 \<Longrightarrow> loaded_row bo (key_bytes (KNextOId w d)) v"
| world: "rn < 10000 \<Longrightarrow> loaded_row bo (world_row_key i) (be_bytes 4 (rn :: u32))"

definition item_keys :: "bytes set" where
  "item_keys = (\<Union>n \<in> {1..<Suc 100000}. {key_bytes (KItem (of_nat n))})"

definition warehouse_keys :: "i32 \<Rightarrow> bytes set" where
  "warehouse_keys ws = (\<Union>n \<in> {1..<Suc (unat ws)}. {key_bytes (KWarehouse (of_nat n))})"

definition district_keys :: "i32 \<Rightarrow> bytes set" where
  "district_keys ws = (\<Union>n \<in> {1..<Suc (unat ws)}. \<Union>m \<in> {1..<Suc 10}.
     {key_bytes (KDistrict (of_nat n) (of_nat m))} \<union> {key_bytes (KNextOId (of_nat n) (of_nat m))})"

definition world_keys :: "bytes set" where
  "world_keys = (\<Union>n \<in> {1..<Suc 10000}. {world_row_key (of_nat n)})"

definition loaded_keys :: "i32 \<Rightarrow> bytes set" where
  "loaded_keys ws = item_keys \<union> warehouse_keys ws \<union> district_keys ws \<union> world_keys"

lemma length_snprintf [simp]: "1 \<le> n \<Longrightarrow> length (snprintf n t) = n"
  by (simp add: snprintf_def min_def)

lemma sint_small: "- (2 ^ 31) \<le> i \<Longrightarrow> i < 2 ^ 31 \<Longrightarrow> sint (word_of_int i :: i32) = i"
  by (rule sint_word_of_int_inrange) simp_all

lemma load_item_extends:
  assumes "healthy e"
  shows "\<exists>s'. load_item e n s = Inr s' \<and> extends {key_bytes (KItem (of_nat n))} (loaded_row (le_byte_order e)) s s'"
proof -
  have rr: "rand_r_nonneg (le_rand_r e)" using assms by (simp add: healthy_def)
  obtain r1 s1 where d1: "draw e 9900 s = (r1, s1)" "0 \<le> r1" "r1 < 9900" "view s1 = view s"
    using draw_view [OF rr, of 9900 s] by auto
  obtain r2 s2 where d2: "draw e 10000 s1 = (r2, s2)" "0 \<le> r2" "r2 < 10000" "view s2 = view s1"
    using draw_view [OF rr, of 10000 s1] by auto
  obtain r3 s3 where d3: "draw e 10 s2 = (r3, s3)" "view s3 = view s2"
    using draw_view [OF rr, of 10 s2] by auto
  define v where "v = zero_item\<lparr>i_name := snprintf 24 (c_str ''Item-'' @ dec_u (of_nat n)), i_price := word_of_int (100 + r1),
      i_im_id := word_of_int (1 + r2),
      i_data := snprintf 50 ((if r3 = 0 then c_str ''ORIGINAL_ITEM_DATA_'' else c_str ''item_data_'') @ dec_u (of_nat n))\<rparr>"
  have q: "i_price v = word_of_int (100 + r1)" "i_im_id v = word_of_int (1 + r2)" by (simp_all add: v_def)
  have p: "sint (i_price v) = 100 + r1" "sint (i_im_id v) = 1 + r2"
    unfolding q by (rule sint_small; use d1(2,3) d2(2,3) in simp)+
  have "item_wf v" by (simp add: item_wf_def v_def)
  then have "loaded_row (le_byte_order e) (key_bytes (KItem (of_nat n))) (item_bytes (le_byte_order e) v)"
    using d1(2,3) d2(2,3) by (intro loaded_row.item) (simp_all add: p)
  from put_extends [where Q = "loaded_row (le_byte_order e)", OF this] obtain s4 where
    s4: "put (Inr (key_bytes (KItem (of_nat n)))) (item_bytes (le_byte_order e) v) s3 = Inr s4"
      "extends {key_bytes (KItem (of_nat n))} (loaded_row (le_byte_order e)) s3 s4" by blast
  obtain s5 where s5: "end_batch e BATCH_SIZE n s4 = Inr s5" "view s5 = view s4" using end_batch_view [OF assms] by blast
  have "load_item e n s = Inr s5" using s4(1) s5(1) by (simp add: load_item_def d1 d2 d3 v_def)
  then show ?thesis using extends_view [OF s4(2), of s s5] s5(2) d1(4) d2(4) d3(2) by auto
qed

lemma next_o_id_3001: "\<exists>nbuf. kv_encode_next_o_id (replicate 8 0) 3001 = Inr nbuf \<and> kv_decode_next_o_id nbuf 8 = Inr 3001 \<and> length nbuf = 8"
  using kv_encode_next_o_id_eq [of "replicate 8 0" 3001] kv_decode_next_o_id_encoded [of 3001 "drop 8 (replicate 8 0)"] by auto

lemma load_one_warehouse_extends:
  assumes "healthy e"
  shows "\<exists>s'. load_one_warehouse e n s = Inr s' \<and> extends {key_bytes (KWarehouse (of_nat n))} (loaded_row (le_byte_order e)) s s'"
proof -
  obtain r s1 where d: "draw e 2000 s = (r, s1)" "0 \<le> r" "r < 2000" "view s1 = view s"
    using draw_view [of e 2000 s] assms by (auto simp: healthy_def)
  define v where "v = zero_warehouse\<lparr>w_name := snprintf 10 (c_str ''Whse-'' @ dec_u (of_nat n)),
      w_street_1 := snprintf 20 (dec_u (of_nat n) @ c_str '' Main St''), w_city := snprintf 20 (c_str ''City-'' @ dec_u (of_nat n)),
      w_state := c_str ''CA'', w_zip := snprintf 9 (c_str ''94000'' @ dec_03u (of_nat n)), w_tax := word_of_int r, w_ytd := 300000 * 100\<rparr>"
  have "warehouse_wf v" "sint (w_tax v) = r" "w_ytd v = 30000000"
    using d(2,3) sint_small [of r] by (simp_all add: warehouse_wf_def v_def zero_warehouse_def c_str_def)
  then have "loaded_row (le_byte_order e) (key_bytes (KWarehouse (of_nat n))) (warehouse_bytes (le_byte_order e) v)"
    using d(2,3) by (intro loaded_row.warehouse) simp_all
  from put_extends [where Q = "loaded_row (le_byte_order e)", OF this] obtain s2 where
    "put (Inr (key_bytes (KWarehouse (of_nat n)))) (warehouse_bytes (le_byte_order e) v) s1 = Inr s2"
    "extends {key_bytes (KWarehouse (of_nat n))} (loaded_row (le_byte_order e)) s1 s2" by blast
  then show ?thesis using extends_view [of _ _ s1 s2 s s2] d(4) by (simp add: load_one_warehouse_def d(1) v_def)
qed

lemma load_one_district_extends:
  assumes "healthy e"
  shows "\<exists>s'. load_one_district e n m s = Inr s' \<and>
    extends ({key_bytes (KDistrict (of_nat n) (of_nat m))} \<union> {key_bytes (KNextOId (of_nat n) (of_nat m))})
      (loaded_row (le_byte_order e)) s s'"
proof -
  let ?kd = "key_bytes (KDistrict (of_nat n) (of_nat m))" and ?kn = "key_bytes (KNextOId (of_nat n) (of_nat m))"
  obtain r s1 where d: "draw e 2000 s = (r, s1)" "0 \<le> r" "r < 2000" "view s1 = view s"
    using draw_view [of e 2000 s] assms by (auto simp: healthy_def)
  define v where "v = zero_district\<lparr>d_name := snprintf 10 (c_str ''Dist-'' @ dec_u (of_nat n) @ c_str ''-'' @ dec_u (of_nat m)),
      d_street_1 := snprintf 20 (dec_u (of_nat n) @ c_str ''-'' @ dec_u (of_nat m) @ c_str '' St''),
      d_city := snprintf 20 (c_str ''City-'' @ dec_u (of_nat n)), d_state := c_str ''CA'',
      d_zip := snprintf 9 (c_str ''94000'' @ dec_03u (of_nat n)), d_tax := word_of_int r, d_ytd := 30000 * 100, d_next_o_id := 3001\<rparr>"
  have "district_wf v" "sint (d_tax v) = r" "d_ytd v = 3000000" "d_next_o_id v = 3001"
    using d(2,3) sint_small [of r] by (simp_all add: district_wf_def v_def zero_district_def c_str_def)
  then have "loaded_row (le_byte_order e) ?kd (district_bytes (le_byte_order e) v)"
    using d(2,3) by (intro loaded_row.district) simp_all
  from put_extends [where Q = "loaded_row (le_byte_order e)", OF this] obtain s2 where
    s2: "put (Inr ?kd) (district_bytes (le_byte_order e) v) s1 = Inr s2" "extends {?kd} (loaded_row (le_byte_order e)) s1 s2" by blast
  obtain nbuf where n: "kv_encode_next_o_id (replicate 8 0) 3001 = Inr nbuf" "kv_decode_next_o_id nbuf 8 = Inr 3001" "length nbuf = 8"
    using next_o_id_3001 by blast
  then obtain s3 where s3: "put (Inr ?kn) nbuf s2 = Inr s3" "extends {?kn} (loaded_row (le_byte_order e)) s2 s3"
    using put_extends [of "loaded_row (le_byte_order e)" ?kn nbuf s2] loaded_row.counter by blast
  have "load_one_district e n m s = Inr s3" using s2(1) s3(1) n(1) by (simp add: load_one_district_def d(1) v_def undef_def)
  then show ?thesis using extends_view [OF extends_trans [OF s2(2) s3(2)], of s s3] d(4) by auto
qed

lemma load_one_world_extends:
  assumes "healthy e"
  shows "\<exists>s'. load_one_world e n s = Inr s' \<and> extends {world_row_key (of_nat n)} (loaded_row (le_byte_order e)) s s'"
proof -
  obtain r s1 where d: "draw e 10000 s = (r, s1)" "0 \<le> r" "r < 10000" "view s1 = view s"
    using draw_view [of e 10000 s] assms by (auto simp: healthy_def)
  have "uint (word_of_int r :: u32) = r" using d(2,3) by (intro word_of_int_inverse) simp_all
  then have "(word_of_int r :: u32) < 10000" using d(3) by (simp add: word_less_def)
  from put_extends [where Q = "loaded_row (le_byte_order e)", OF loaded_row.world [OF this]] obtain s2 where
    s2: "put (Inr (world_row_key (of_nat n))) (be_bytes 4 (word_of_int r :: u32)) s1 = Inr s2"
      "extends {world_row_key (of_nat n)} (loaded_row (le_byte_order e)) s1 s2" by blast
  obtain s3 where s3: "end_batch e 1000 n s2 = Inr s3" "view s3 = view s2" using end_batch_view [OF assms] by blast
  have "load_one_world e n s = Inr s3"
    using s2(1) s3(1) by (simp add: load_one_world_def d(1) write_bytes_def c_str_def world_row_key_def TFB_WORLD_PREFIX_def)
  then show ?thesis using extends_view [OF s2(2), of s s3] s3(2) d(4) by auto
qed

lemma load_phases:
  assumes "healthy e" and "ld_sets s = []"
  shows "\<exists>s'. load_items e s = Inr s' \<and> extends item_keys (loaded_row (le_byte_order e)) s s' \<and> ld_sets s' = []"
    and "ws \<noteq> 0xFFFFFFFF \<Longrightarrow> \<exists>s'. load_warehouse e ws s = Inr s' \<and>
      extends (warehouse_keys ws) (loaded_row (le_byte_order e)) s s' \<and> ld_sets s' = []"
    and "0 \<le> sint ws \<Longrightarrow> sint ws \<le> 214748364 \<Longrightarrow> \<exists>s'. load_districts_and_next_o_id e ws s = Inr s' \<and>
      extends (district_keys ws) (loaded_row (le_byte_order e)) s s' \<and> ld_sets s' = []"
    and "\<exists>s'. load_world_table e s = Inr s' \<and> extends world_keys (loaded_row (le_byte_order e)) s s' \<and> ld_sets s' = []"
proof -
  let ?Q = "loaded_row (le_byte_order e)"
  have "\<exists>s'. forR [1..<Suc 100000] (load_item e) s = Inr s' \<and> extends item_keys ?Q s s'" for s
    unfolding item_keys_def by (rule extends_loop) (simp, rule load_item_extends [OF assms(1)])
  then show "\<exists>s'. load_items e s = Inr s' \<and> extends item_keys ?Q s s' \<and> ld_sets s' = []"
    unfolding load_items_def by (intro extends_phase [OF assms]) (simp add: ITEM_COUNT_def)
  show "\<exists>s'. load_warehouse e ws s = Inr s' \<and> extends (warehouse_keys ws) ?Q s s' \<and> ld_sets s' = []" if "ws \<noteq> 0xFFFFFFFF"
  proof -
    have "\<exists>s'. forR [1..<Suc (unat ws)] (load_one_warehouse e) s = Inr s' \<and> extends (warehouse_keys ws) ?Q s s'" for s
      unfolding warehouse_keys_def by (rule extends_loop) (simp, rule load_one_warehouse_extends [OF assms(1)])
    then show ?thesis
      unfolding load_warehouse_def using that by (intro extends_phase [OF assms]) (simp add: u32_loop_def)
  qed
  show "\<exists>s'. load_districts_and_next_o_id e ws s = Inr s' \<and> extends (district_keys ws) ?Q s s' \<and> ld_sets s' = []"
    if ws: "0 \<le> sint ws" "sint ws \<le> 214748364"
  proof -
    have inner: "\<exists>s'. forR [1..<Suc 10] (load_one_district e n) s = Inr s' \<and> extends (\<Union>m \<in> {1..<Suc 10}.
        {key_bytes (KDistrict (of_nat n) (of_nat m))} \<union> {key_bytes (KNextOId (of_nat n) (of_nat m))}) ?Q s s'" for n s
      by (rule extends_loop) (simp, rule load_one_district_extends [OF assms(1)])
    have "\<exists>s'. forR [1..<Suc (unat ws)] (\<lambda>n. forR [1..<Suc 10] (load_one_district e n)) s = Inr s' \<and>
        extends (district_keys ws) ?Q s s'" for s
      unfolding district_keys_def by (rule extends_loop) (simp, rule inner)
    moreover have "ws \<noteq> 0xFFFFFFFF" using ws(1) by auto
    moreover have "unat DISTRICTS_PER_WAREHOUSE = 10" by (simp add: DISTRICTS_PER_WAREHOUSE_def)
    ultimately have "\<exists>s'. bindR (create_transaction e s) (\<lambda>s. bindR (u32_loop ws
        (\<lambda>w. forR [1..<Suc (unat DISTRICTS_PER_WAREHOUSE)] (load_one_district e w)) s) (final_commit e)) = Inr s' \<and>
        extends (district_keys ws) ?Q s s' \<and> ld_sets s' = []"
      by (intro extends_phase [OF assms]) (simp only: u32_loop_def if_False)
    then show ?thesis
      unfolding load_districts_and_next_o_id_def using ws by (simp add: schk_def undef_def)
  qed
  have "\<exists>s'. forR [1..<Suc 10000] (load_one_world e) s = Inr s' \<and> extends world_keys ?Q s s'" for s
    unfolding world_keys_def by (rule extends_loop) (simp, rule load_one_world_extends [OF assms(1)])
  then show "\<exists>s'. load_world_table e s = Inr s' \<and> extends world_keys ?Q s s' \<and> ld_sets s' = []"
    unfolding load_world_table_def by (intro extends_phase [OF assms])
qed

lemma loader_main_loads:
  assumes "healthy e" and "loader_args args = Inr (ws, file)" and "0 \<le> sint ws" and "sint ws \<le> 214748364"
  shows "\<exists>rows'. loader_main e 0 0 0 0 args rows = Inr rows' \<and>
    (\<forall>k \<in> loaded_keys ws. \<exists>v. rows' k = Some v \<and> loaded_row (le_byte_order e) k v) \<and> (\<forall>k. k \<notin> loaded_keys ws \<longrightarrow> rows' k = rows k)"
proof -
  let ?Q = "loaded_row (le_byte_order e)" and ?s = "\<lparr>ld_seed = 42, ld_sets = [], ld_store = rows, ld_calls = 0\<rparr>"
  obtain s1 where s1: "load_items e ?s = Inr s1" "extends item_keys ?Q ?s s1" "ld_sets s1 = []"
    using load_phases(1) [OF assms(1), of ?s] by auto
  have "ws \<noteq> 0xFFFFFFFF" using assms(3) by auto
  then obtain s2 where s2: "load_warehouse e ws s1 = Inr s2" "extends (warehouse_keys ws) ?Q s1 s2" "ld_sets s2 = []"
    using load_phases(2) [OF assms(1) s1(3)] by blast
  obtain s3 where s3: "load_districts_and_next_o_id e ws s2 = Inr s3" "extends (district_keys ws) ?Q s2 s3" "ld_sets s3 = []"
    using load_phases(3) [OF assms(1) s2(3) assms(3,4)] by blast
  obtain s4 where s4: "load_world_table e s3 = Inr s4" "extends world_keys ?Q s3 s4" "ld_sets s4 = []"
    using load_phases(4) [OF assms(1) s3(3)] by blast
  have "extends (loaded_keys ws) ?Q ?s s4"
    unfolding loaded_keys_def by (intro extends_trans [OF extends_trans [OF extends_trans]]) (fact s1 s2 s3 s4)+
  moreover have "loader_main e 0 0 0 0 args rows = Inr (ld_store s4)"
    using s1 s2 s3 s4 assms(2)
    by (simp add: loader_main_def load_all_def load_customer_and_orders_def undef_def check_fdb_def)
  ultimately show ?thesis
    using s4(3) by (simp add: extends_def view_def apply_sets_def)
qed

text \<open>
  The only commit of the warehouses, like that of the districts, is waited for but its error is not looked at: a commit
  that fails loses all the rows and the load goes on.
\<close>

lemma load_warehouse_ignores_commit_error:
  assumes "le_create e (ld_calls s) = 0" and "le_block e (ld_calls s + 1) = 0" and "\<not> le_applied e (ld_calls s + 1)"
  shows "\<exists>s'. load_warehouse e 1 s = Inr s' \<and> ld_store s' = ld_store s"
proof -
  have "\<exists>s'. load_one_warehouse e 1 s = Inr s' \<and> ld_store s' = ld_store s \<and> ld_calls s' = ld_calls s" for s
    by (simp add: load_one_warehouse_def draw_def put_def undef_def transaction_set_def split: prod.splits)
  from this [of "s\<lparr>ld_sets := [], ld_calls := ld_calls s + 1\<rparr>"] show ?thesis
    using assms
    by (auto simp: load_warehouse_def create_transaction_def check_fdb_def u32_loop_def final_commit_def commit_wait_def
        forget_def Let_def)
qed

section \<open>Properties\<close>

text \<open>
  C12. A load in which no call reports an error, commits without an error are durable and \<open>rand_r\<close> is not negative, for
  zero to 214748364 warehouses: the program ends normally and the store holds, at exactly the 100000 item keys, the
  keys of the warehouses, of their ten districts and order counters and of the 10000 World rows, rows of the right
  shape whose values are in their ranges, with order numbers starting at 3001; all other rows, the customers,
  stock and orders included, are as before.
\<close>

theorem loader_loads_tables:
  assumes "durable_commits e" and "no_errors e" and "rand_r_nonneg (le_rand_r e)"
    and "loader_args args = Inr (ws, file)" and "0 \<le> sint ws" and "sint ws \<le> 214748364"
  shows "\<exists>rows'. loader_main e 0 0 0 0 args rows = Inr rows' \<and>
    (\<forall>k \<in> loaded_keys ws. \<exists>v. rows' k = Some v \<and> loaded_row (le_byte_order e) k v) \<and> (\<forall>k. k \<notin> loaded_keys ws \<longrightarrow> rows' k = rows k)"
  using loader_main_loads [OF _ assms(4-6), of e rows] assms(1-3) by (simp add: healthy_def)

theorem loader_loads_tables_witness:
  "\<exists>rows'. loader_main \<lparr>le_create = (\<lambda>_. 0), le_block = (\<lambda>_. 0), le_error = (\<lambda>_. 0), le_applied = (\<lambda>_. True),
       le_rand_r = (\<lambda>s. (5, s + 1)), le_byte_order = Little_Endian\<rparr> 0 0 0 0 [''-w1'', ''-v''] Map.empty = Inr rows' \<and>
     rows' (key_bytes (KNextOId 1 10)) \<noteq> None \<and> rows' (key_bytes (KCustomer 1 1 1)) = None"
proof -
  let ?e = "\<lparr>le_create = (\<lambda>_. 0), le_block = (\<lambda>_. 0), le_error = (\<lambda>_. 0), le_applied = (\<lambda>_. True),
       le_rand_r = (\<lambda>s. (5, s + 1)), le_byte_order = Little_Endian\<rparr> :: loader_env"
  let ?keys = "loaded_keys 1"
  have e: "durable_commits ?e" "no_errors ?e" "rand_r_nonneg (le_rand_r ?e)"
    by (simp_all add: durable_commits_def no_errors_def rand_r_nonneg_def)
  have args: "loader_args [''-w1'', ''-v''] = Inr (1, ''/etc/foundationdb/fdb.cluster'')"
    by (simp add: loader_args_def loader_arg_def atoi_def is_space_def is_digit_def c_str_def)
  have "key_bytes (KNextOId 1 10) \<in> loaded_keys 1"
    unfolding loaded_keys_def district_keys_def by (rule UnI1, rule UnI2, rule UN_I [of 1], simp, rule UN_I [of 10]) simp_all
  moreover have "key_bytes (KCustomer 1 1 1) \<noteq> world_row_key i" for i
    by (simp add: key_bytes.simps world_row_key_def TFB_WORLD_PREFIX_def SS_CUSTOMER_def c_str_def)
  then have "key_bytes (KCustomer 1 1 1) \<notin> ?keys"
    by (auto simp: loaded_keys_def item_keys_def warehouse_keys_def district_keys_def world_keys_def dest: key_bytes_inj)
  ultimately show ?thesis
    using loader_loads_tables [OF e args, of Map.empty] by fastforce
qed

end
