(* ===== verification/Benchmark_Run.thy ===== *)
theory Benchmark_Run
  imports New_Order Payment Read_Txns Loader
begin

text \<open>
  A run of the benchmark: a store that the loader filled (\<open>src/tpcc_loader.c\<close>) and the requests that the handlers
  (\<open>src/handlers/\<close>) serve from it. \<open>request_step\<close> is one served request, of any of the seven kinds
  that reach the database, in the order in which they commit; a NewOrder or a Payment may have conflicted with others
  before, each of its attempts having seen rows of its own. What holds of every store a run can reach is shown by induction over its steps.
\<close>

section \<open>Steps of a run\<close>

inductive request_step :: "byte_order \<Rightarrow> rows \<Rightarrow> rows \<Rightarrow> bool" for bo where
  new_order: "e_byte_order e = bo \<Longrightarrow> serving e st \<Longrightarrow> no_ctx_ok c \<Longrightarrow> 0 < no_ol_cnt c \<Longrightarrow> (\<And>j. errs j \<noteq> 0) \<Longrightarrow>
    serve_request (new_order_begin e) (no_run e) n (contended_reply rs scan errs k) st c = Inr w \<Longrightarrow> finished w \<Longrightarrow>
    request_step bo (rs k) (committed (rs k) (log w))"
| payment: "e_byte_order e = bo \<Longrightarrow> serving e st \<Longrightarrow> payment_parameters_ok c \<Longrightarrow> (\<And>j. errs j \<noteq> 0) \<Longrightarrow>
    serve_request (payment_begin e) (pay_run e) n (contended_reply rs scan errs k) st c = Inr w \<Longrightarrow> finished w \<Longrightarrow>
    request_step bo (rs k) (committed (rs k) (log w))"
| order_status: "serve_request (order_status_begin e) os_run n (store_reply rows scan) st c = Inr w \<Longrightarrow>
    finished w \<Longrightarrow> request_step bo rows (committed rows (log w))"
| delivery: "serve_request (delivery_begin e) dl_run n (store_reply rows scan) st c = Inr w \<Longrightarrow>
    finished w \<Longrightarrow> request_step bo rows (committed rows (log w))"
| stock_level: "serve_request (stock_level_begin e) (sl_run e) n (store_reply rows scan) st c = Inr w \<Longrightarrow>
    finished w \<Longrightarrow> request_step bo rows (committed rows (log w))"
| single_query: "serve_request (single_query_begin e) sq_run n (store_reply rows scan) st c = Inr w \<Longrightarrow>
    finished w \<Longrightarrow> request_step bo rows (committed rows (log w))"
| updates: "serve_request (updates_begin e) (up_run e) n (store_reply rows scan) st c = Inr w \<Longrightarrow>
    finished w \<Longrightarrow> request_step bo rows (committed rows (log w))"

text \<open>What each kind writes.\<close>

lemma new_order_shaped:
  assumes "serve_request (new_order_begin e) (no_run e) n reply st c = Inr w"
  shows "shaped no_tables w"
  using new_order_shaping.served_shaped [OF assms] new_order_begin_shaped [of e st c] by (simp add: allR_def)

lemma payment_shaped:
  assumes "serve_request (payment_begin e) (pay_run e) n reply st c = Inr w"
  shows "shaped pay_tables w"
  using payment_shaping.served_shaped [OF assms] payment_begin_shaped [of e st c] by (simp add: allR_def)

lemma other_requests_shaped:
  "serve_request (order_status_begin e) os_run n reply st c1 = Inr w1 \<Longrightarrow> shaped (\<lambda>_. False) w1"
  "serve_request (delivery_begin e) dl_run n reply st c2 = Inr w2 \<Longrightarrow> shaped (\<lambda>_. False) w2"
  "serve_request (stock_level_begin e) (sl_run e) n reply st c3 = Inr w3 \<Longrightarrow> shaped (\<lambda>_. False) w3"
  "serve_request (single_query_begin e) sq_run n reply st c4 = Inr w4 \<Longrightarrow> shaped (\<lambda>_. False) w4"
  "serve_request (updates_begin e) (up_run e) n reply st c5 = Inr w5 \<Longrightarrow> shaped (\<lambda>_. False) w5"
  using read_begin_shaped(1) [of e st c1] read_begin_shaped(2) [of e st c2] read_begin_shaped(3) [of e st c3]
    world_begin_shaped(1) [of e st c4] world_begin_shaped(2) [of e st c5]
  by (auto simp: allR_def elim!: order_status_shaping.served_shaped delivery_shaping.served_shaped
      stock_level_shaping.served_shaped single_query_shaping.served_shaped update_shaping.served_shaped)

text \<open>Every step writes rows of the right shape, and a TPC-C row other than by an order or a payment stays as it is.\<close>

lemma request_step_shaped:
  assumes "request_step bo rows rows'" and "well_shaped rows"
  shows "well_shaped rows'"
  using assms(1)
proof (cases rule: request_step.cases)
  case (new_order e st c errs n rs scan k w)
  show ?thesis using committed_shaped [OF assms(2) new_order_shaped [OF new_order(8)]] new_order(1,2) by simp
next
  case (payment e st c errs n rs scan k w)
  show ?thesis using committed_shaped [OF assms(2) payment_shaped [OF payment(7)]] payment(1,2) by simp
qed (simp_all add: committed_shaped [OF assms(2) other_requests_shaped(1)] committed_shaped [OF assms(2) other_requests_shaped(2)]
    committed_shaped [OF assms(2) other_requests_shaped(3)] committed_shaped [OF assms(2) other_requests_shaped(4)]
    committed_shaped [OF assms(2) other_requests_shaped(5)])

lemma request_run_shaped: "(request_step bo)\<^sup>*\<^sup>* rows rows' \<Longrightarrow> well_shaped rows \<Longrightarrow> well_shaped rows'"
  by (induction rule: rtranclp_induct) (auto intro: request_step_shaped)

text \<open>
  A step is a NewOrder or a Payment that does what its specification says of the store, or leaves all TPC-C rows
  alone.
\<close>

lemma committed_as:
  assumes "served_as st' (serve_request start run m reply st c) spec"
    and "serve_request start run n reply st c = Inr w" and "finished w"
  shows "\<exists>ws response. spec = Inr (ws, response) \<and> committed rows (log w) = apply_writes ws rows"
  using served_as_finished [OF assms] by (auto simp: committed_def)

lemma not_writing: "\<not> writing (Inr (ws, response)) \<Longrightarrow> apply_writes ws rows = rows"
  by (simp add: writing_def)

text \<open>A retried request has committed what the specification says of the rows it commits to, or nothing.\<close>

lemma new_order_commits:
  assumes "serving e st" and "no_ctx_ok c" and "0 < no_ol_cnt c" and "\<And>j. errs j \<noteq> 0"
    and "serve_request (new_order_begin e) (no_run e) n (contended_reply rs scan errs k) st c = Inr w" and "finished w"
  shows "committed (rs k) (log w) = rs k \<or>
    (\<exists>c' now ws response. no_ctx_ok c' \<and> new_order_spec (e_byte_order e) (rs k) c' now = Inr (ws, response) \<and>
      committed (rs k) (log w) = apply_writes ws (rs k))"
proof -
  obtain j c' now where j: "no_ctx_ok c'" "j = k \<or> \<not> writing (new_order_spec (e_byte_order e) (rs j) c' now)"
      "served_as (counted st) (serve_request (new_order_begin e) (no_run e)
        (k * (unat (no_ol_cnt c) + 4) + unat (no_ol_cnt c) + 3) (contended_reply rs scan errs k) st c)
        (new_order_spec (e_byte_order e) (rs j) c' now)"
    using new_order_request_retried(1) [where errs = errs and k = k and rows = rs and scan = scan, OF assms(1,4,2,3) refl] by auto
  from committed_as [OF j(3) assms(5,6), of "rs k"] obtain ws response where
    c: "new_order_spec (e_byte_order e) (rs j) c' now = Inr (ws, response)" "committed (rs k) (log w) = apply_writes ws (rs k)"
    by blast
  show ?thesis
  proof (cases "j = k")
    case True
    then show ?thesis using j(1) c by auto
  next
    case False
    then show ?thesis using c j(2) not_writing [of ws response "rs k"] by simp
  qed
qed

lemma payment_commits:
  assumes "serving e st" and "\<And>j. errs j \<noteq> 0"
    and "serve_request (payment_begin e) (pay_run e) n (contended_reply rs scan errs k) st c = Inr w" and "finished w"
  shows "committed (rs k) (log w) = rs k \<or>
    (\<exists>c' now ws response. same_payment c c' \<and> payment_spec e (rs k) c' now = Inr (ws, response) \<and>
      committed (rs k) (log w) = apply_writes ws (rs k))"
proof -
  obtain j c' now where j: "same_payment c c'" "j = k \<or> \<not> writing (payment_spec e (rs j) c' now)"
      "served_as (counted st) (serve_request (payment_begin e) (pay_run e) (k * 5 + 4) (contended_reply rs scan errs k) st c)
        (payment_spec e (rs j) c' now)"
    using payment_request_retried(1) [where errs = errs and c = c and k = k and rows = rs and scan = scan, OF assms(1,2)] by auto
  from committed_as [OF j(3) assms(3,4), of "rs k"] obtain ws response where
    c: "payment_spec e (rs j) c' now = Inr (ws, response)" "committed (rs k) (log w) = apply_writes ws (rs k)" by blast
  show ?thesis
  proof (cases "j = k")
    case True
    then show ?thesis using j(1) c by auto
  next
    case False
    then show ?thesis using c j(2) not_writing [of ws response "rs k"] by simp
  qed
qed

lemma request_step_tpcc:
  assumes "request_step bo rows rows'"
  obtains (new_order) c now ws response where "no_ctx_ok c" "new_order_spec bo rows c now = Inr (ws, response)" "rows' = apply_writes ws rows"
  | (payment) e c now ws response where "e_byte_order e = bo" "pay_c_w_id c = pay_w_id c" "pay_c_d_id c \<in> {1..10}"
      "payment_spec e rows c now = Inr (ws, response)" "rows' = apply_writes ws rows"
  | (other) "\<And>t. rows' (key_bytes t) = rows (key_bytes t)"
  using assms
proof (cases rule: request_step.cases)
  case (new_order e st c errs n rs scan k w)
  from new_order_commits [where errs = errs, OF new_order(4-9)] consider "rows' = rows"
    | c' now ws response where "no_ctx_ok c'" "new_order_spec bo rows c' now = Inr (ws, response)" "rows' = apply_writes ws rows"
    unfolding new_order(1-3) by blast
  then show thesis
  proof cases
    case 1
    then show thesis using that(3) by simp
  next
    case 2
    then show thesis by (rule that(1))
  qed
next
  case (payment e st c errs n rs scan k w)
  from payment_commits [where errs = errs, OF payment(4,6-8)] consider "rows' = rows"
    | c' now ws response where "same_payment c c'" "payment_spec e rows c' now = Inr (ws, response)" "rows' = apply_writes ws rows"
    unfolding payment(1,2) by blast
  then show thesis
  proof cases
    case 1
    then show thesis using that(3) by simp
  next
    case 2
    then have "pay_c_w_id c' = pay_w_id c'" "pay_c_d_id c' \<in> {1..10}"
      using payment(5) by (auto simp: payment_parameters_ok_def same_payment_def intro: order_trans [of 1 2])
    then show thesis using 2(2,3) by (rule that(2) [OF payment(3)])
  qed
next
  case (order_status e n scan st c w)
  show thesis by (rule that(3)) (simp add: order_status(1) committed_other [OF other_requests_shaped(1) [OF order_status(2)]])
next
  case (delivery e n scan st c w)
  show thesis by (rule that(3)) (simp add: delivery(1) committed_other [OF other_requests_shaped(2) [OF delivery(2)]])
next
  case (stock_level e n scan st c w)
  show thesis by (rule that(3)) (simp add: stock_level(1) committed_other [OF other_requests_shaped(3) [OF stock_level(2)]])
next
  case (single_query e n scan st c w)
  show thesis by (rule that(3)) (simp add: single_query(1) committed_other [OF other_requests_shaped(4) [OF single_query(2)]])
next
  case (updates e n scan st c w)
  show thesis by (rule that(3)) (simp add: updates(1) committed_other [OF other_requests_shaped(5) [OF updates(2)]])
qed

lemma new_order_spec_tables:
  assumes "new_order_spec bo rows c now = Inr (ws, response)" and "\<not> no_tables t"
  shows "Fdb_set (key_bytes t) v \<notin> set ws"
proof -
  have keys: "key_bytes a = key_bytes b \<longleftrightarrow> a = b" for a b using key_bytes_inj by blast
  have "Fdb_set (key_bytes t) v \<notin> set (new_order_writes bo c' now)" for c'
    using assms(2) by (auto simp: new_order_writes_def oorder_set_def order_line_set_def stock_set_def keys)
  then show ?thesis
    using assms(1) by (auto simp: new_order_spec_def place_spec_def bindR_eq_Inr_iff split: option.splits if_splits)
qed

section \<open>A store without customers\<close>

text \<open>Without customer rows an order or a payment ends before it writes.\<close>

definition no_customers :: "rows \<Rightarrow> bool" where
  "no_customers rows \<longleftrightarrow> (\<forall>w d c. rows (key_bytes (KCustomer w d c)) = None)"

lemma specs_without_customers:
  assumes "no_customers rows"
  shows "\<exists>msg. new_order_spec bo rows c now = Inr ([], H2o_send_error_generic 500 ''Error'' msg)"
    and "\<exists>msg. payment_spec e rows p now = Inr ([], H2o_send_error_generic 500 ''Error'' msg)"
  using assms by (simp_all add: new_order_spec_def payment_spec_def row_at_def no_customers_def Let_def split: option.split)

lemma request_run_without_customers:
  assumes "(request_step bo)\<^sup>*\<^sup>* rows rows'" and "no_customers rows"
  shows "rows' (key_bytes t) = rows (key_bytes t)"
proof -
  from assms(1) have "\<forall>t. rows' (key_bytes t) = rows (key_bytes t)"
  proof (induction rule: rtranclp_induct)
    case (step rows1 rows2)
    have nc: "no_customers rows1" using step.IH assms(2) by (simp add: no_customers_def)
    from step.hyps(2) show ?case
    proof (cases rule: request_step_tpcc)
      case (new_order c now ws response)
      then show ?thesis using specs_without_customers(1) [OF nc, of bo c now] step.IH by auto
    next
      case (payment e c now ws response)
      then show ?thesis using specs_without_customers(2) [OF nc, of e c now] step.IH by auto
    next
      case other
      then show ?thesis using step.IH by simp
    qed
  qed simp
  then show ?thesis by blast
qed

section \<open>Year-to-date sums\<close>

definition warehouse_ytd :: "byte_order \<Rightarrow> rows \<Rightarrow> u32 \<Rightarrow> int" where
  "warehouse_ytd bo rows w =
     (case row_at sizeof_warehouse_val rows (key_bytes (KWarehouse w)) of None \<Rightarrow> 0 | Some v \<Rightarrow> sint (w_ytd (cast_warehouse bo v)))"

definition district_ytd :: "byte_order \<Rightarrow> rows \<Rightarrow> u32 \<Rightarrow> u32 \<Rightarrow> int" where
  "district_ytd bo rows w d =
     (case row_at sizeof_district_val rows (key_bytes (KDistrict w d)) of None \<Rightarrow> 0 | Some v \<Rightarrow> sint (d_ytd (cast_district bo v)))"

definition balanced :: "byte_order \<Rightarrow> rows \<Rightarrow> u32 \<Rightarrow> bool" where
  "balanced bo rows w \<longleftrightarrow> warehouse_ytd bo rows w = (\<Sum>d \<in> {1..10}. district_ytd bo rows w d)"

text \<open>A payment that posts raises one warehouse sum and one district sum by its amount.\<close>

lemma sint_add_scast:
  fixes a :: i64 and b :: i32
  assumes "- (2 ^ 63) \<le> sint a + sint b" and "sint a + sint b < 2 ^ 63"
  shows "sint (a + scast b) = sint a + sint b"
proof -
  have "a + scast b = word_of_int (sint a + sint b)" by simp
  then show ?thesis using assms by (simp only:) (intro sint_word_of_int_inrange, simp_all)
qed

lemma paying_fields [simp]:
  "pay_w_id (paying e c wval dval) = pay_w_id c" "pay_c_w_id (paying e c wval dval) = pay_c_w_id c"
  "pay_c_d_id (paying e c wval dval) = pay_c_d_id c" "pay_h_amount (paying e c wval dval) = pay_h_amount c"
  "pay_w_ytd (paying e c wval dval) = w_ytd (cast_warehouse (e_byte_order e) wval)"
  "pay_d_ytd (paying e c wval dval) = d_ytd (cast_district (e_byte_order e) dval)"
  by (simp_all add: paying_def Let_def split: prod.splits)

lemma payment_spec_posts:
  assumes "payment_spec e rows c now = Inr (ws, response)" and "ws \<noteq> []"
  obtains wval dval cv where "row_at sizeof_warehouse_val rows (key_bytes (KWarehouse (pay_w_id c))) = Some wval"
    "row_at sizeof_district_val rows (key_bytes (KDistrict (pay_c_w_id c) (pay_c_d_id c))) = Some dval"
    "payment_in_range (paying e c wval dval) cv" "ws = payment_writes (e_byte_order e) (paying e c wval dval) cv now"
  using assms by (auto simp: payment_spec_def pay_customer_def Let_def split: option.splits if_splits)

lemma payment_writes_ytd:
  assumes "payment_in_range c cv"
  shows "warehouse_ytd bo (apply_writes (payment_writes bo c cv now) rows) w =
      (if w = pay_w_id c then sint (pay_w_ytd c) + sint (pay_h_amount c) else warehouse_ytd bo rows w)"
    and "district_ytd bo (apply_writes (payment_writes bo c cv now) rows) w d =
      (if w = pay_c_w_id c \<and> d = pay_c_d_id c then sint (pay_d_ytd c) + sint (pay_h_amount c) else district_ytd bo rows w d)"
proof -
  let ?wv = "zero_warehouse\<lparr>w_ytd := pay_w_ytd c + scast (pay_h_amount c)\<rparr>"
  let ?dv = "zero_district\<lparr>d_ytd := pay_d_ytd c + scast (pay_h_amount c)\<rparr>"
  have wf: "warehouse_wf ?wv" "district_wf ?dv" by (simp_all add: row_wf_defs row_zero_defs)
  have cast: "cast_warehouse bo (warehouse_bytes bo ?wv) = ?wv" "cast_district bo (district_bytes bo ?dv) = ?dv"
    using cast_warehouse_bytes [OF wf(1), of bo "[]"] cast_district_bytes [OF wf(2), of bo "[]"] by simp_all
  have sums: "sint (pay_w_ytd c + scast (pay_h_amount c)) = sint (pay_w_ytd c) + sint (pay_h_amount c)"
      "sint (pay_d_ytd c + scast (pay_h_amount c)) = sint (pay_d_ytd c) + sint (pay_h_amount c)"
    using assms by (intro sint_add_scast; simp add: payment_in_range_def)+
  have keys: "key_bytes a = key_bytes b \<longleftrightarrow> a = b" for a b using key_bytes_inj by blast
  show "warehouse_ytd bo (apply_writes (payment_writes bo c cv now) rows) w =
      (if w = pay_w_id c then sint (pay_w_ytd c) + sint (pay_h_amount c) else warehouse_ytd bo rows w)"
    by (simp add: warehouse_ytd_def row_at_def payment_writes_def keys cast wf sums)
  show "district_ytd bo (apply_writes (payment_writes bo c cv now) rows) w d =
      (if w = pay_c_w_id c \<and> d = pay_c_d_id c then sint (pay_d_ytd c) + sint (pay_h_amount c) else district_ytd bo rows w d)"
    by (auto simp: district_ytd_def row_at_def payment_writes_def keys cast wf sums)
qed

lemma payment_ytd:
  assumes "payment_spec e rows c now = Inr (ws, response)" and "ws \<noteq> []" and "e_byte_order e = bo"
  shows "warehouse_ytd bo (apply_writes ws rows) w =
      warehouse_ytd bo rows w + (if w = pay_w_id c then sint (pay_h_amount c) else 0)"
    and "district_ytd bo (apply_writes ws rows) w d =
      district_ytd bo rows w d + (if w = pay_c_w_id c \<and> d = pay_c_d_id c then sint (pay_h_amount c) else 0)"
proof -
  obtain wval dval cv where r: "row_at sizeof_warehouse_val rows (key_bytes (KWarehouse (pay_w_id c))) = Some wval"
      "row_at sizeof_district_val rows (key_bytes (KDistrict (pay_c_w_id c) (pay_c_d_id c))) = Some dval"
      "payment_in_range (paying e c wval dval) cv" "ws = payment_writes bo (paying e c wval dval) cv now"
    using payment_spec_posts [OF assms(1,2)] assms(3) by blast
  show "warehouse_ytd bo (apply_writes ws rows) w =
      warehouse_ytd bo rows w + (if w = pay_w_id c then sint (pay_h_amount c) else 0)"
    using payment_writes_ytd(1) [OF r(3), of bo now rows w] r(1) assms(3) by (simp add: r(4)) (simp add: warehouse_ytd_def)
  show "district_ytd bo (apply_writes ws rows) w d =
      district_ytd bo rows w d + (if w = pay_c_w_id c \<and> d = pay_c_d_id c then sint (pay_h_amount c) else 0)"
    using payment_writes_ytd(2) [OF r(3), of bo now rows w d] r(2) assms(3) by (simp add: r(4)) (auto simp: district_ytd_def)
qed

lemma ytd_other:
  assumes "\<And>w. rows' (key_bytes (KWarehouse w)) = rows (key_bytes (KWarehouse w))"
    and "\<And>w d. rows' (key_bytes (KDistrict w d)) = rows (key_bytes (KDistrict w d))"
  shows "balanced bo rows' w = balanced bo rows w"
  using assms by (simp add: balanced_def warehouse_ytd_def district_ytd_def row_at_def)

lemma request_step_balanced:
  assumes "request_step bo rows rows'" and "balanced bo rows w"
  shows "balanced bo rows' w"
  using assms(1)
proof (cases rule: request_step_tpcc)
  case (new_order c now ws response)
  have "rows' (key_bytes t) = rows (key_bytes t)" if "\<not> no_tables t" for t
    unfolding new_order(3) using new_order_spec_tables [OF new_order(2) that] by (intro apply_writes_other)
  then show ?thesis using ytd_other [of rows' rows] assms(2) by simp
next
  case (payment e c now ws response)
  note d = payment(2,3)
  show ?thesis
  proof (cases "ws = []")
    case False
    have "(\<Sum>x \<in> {1..10}. if w = pay_w_id c \<and> x = pay_c_d_id c then sint (pay_h_amount c) else 0) =
        (if w = pay_w_id c then sint (pay_h_amount c) else 0)"
      using d(2) by (simp add: sum.delta)
    then show ?thesis
      using assms(2) payment_ytd [OF payment(4) False payment(1)] payment(5) d(1)
      by (simp add: balanced_def sum.distrib)
  qed (use payment(5) assms(2) in simp)
next
  case other
  then show ?thesis using ytd_other [of rows' rows] assms(2) by simp
qed

lemma request_run_balanced: "(request_step bo)\<^sup>*\<^sup>* rows rows' \<Longrightarrow> balanced bo rows w \<Longrightarrow> balanced bo rows' w"
  by (induction rule: rtranclp_induct) (auto intro: request_step_balanced)

section \<open>Order numbers\<close>

text \<open>Nothing that a NewOrder writes changes a district row, and its order row is keyed by the number it answers with.\<close>

lemma new_order_keeps_districts:
  assumes "new_order_spec bo rows c now = Inr (ws, response)"
  shows "apply_writes ws rows (key_bytes (KDistrict w d)) = rows (key_bytes (KDistrict w d))"
  using new_order_spec_tables [OF assms] by (intro apply_writes_other) simp

lemma new_order_order_row:
  "\<exists>v. apply_writes (new_order_writes bo c now) rows (key_bytes (KOorder (no_w_id c) (no_d_id c) (no_d_next_o_id c))) = Some v \<and>
     o_c_id (cast_oorder bo v) = no_c_id c"
proof -
  have keys: "key_bytes a = key_bytes b \<longleftrightarrow> a = b" for a b using key_bytes_inj by blast
  have other: "apply_writes cs s (key_bytes t) = s (key_bytes t)" if "\<forall>v. Fdb_set (key_bytes t) v \<notin> set cs" for cs s t
    using that by (intro apply_writes_other) blast
  show ?thesis
    using cast_oorder_bytes [where rest = "[]"]
    by (simp add: new_order_writes_def oorder_set_def order_line_set_def stock_set_def keys other image_iff oorder_wf_def)
qed

lemma orders_collide:
  assumes "new_order_spec bo rows c1 now1 = Inr (ws1, response1)" and "ws1 \<noteq> []"
    and "new_order_spec bo (apply_writes ws1 rows) c2 now2 = Inr (ws2, response2)" and "ws2 \<noteq> []"
    and "no_w_id c2 = no_w_id c1" and "no_d_id c2 = no_d_id c1"
  shows "\<exists>n v1 v2. response1 = response2 \<and>
    apply_writes ws1 rows (key_bytes (KOorder (no_w_id c1) (no_d_id c1) n)) = Some v1 \<and>
    apply_writes ws2 (apply_writes ws1 rows) (key_bytes (KOorder (no_w_id c1) (no_d_id c1) n)) = Some v2 \<and>
    o_c_id (cast_oorder bo v1) = no_c_id c1 \<and> o_c_id (cast_oorder bo v2) = no_c_id c2"
proof -
  obtain d1 a where 1: "row_at sizeof_district_val rows (key_bytes (KDistrict (no_w_id c1) (no_d_id c1))) = Some d1"
      "ws1 = new_order_writes bo a now1" "response1 = new_order_ok_response a" "no_w_id a = no_w_id c1" "no_d_id a = no_d_id c1"
      "no_c_id a = no_c_id c1" "no_d_next_o_id a = d_next_o_id (cast_district bo d1)"
    using new_order_spec_places [OF assms(1,2)] by metis
  obtain d2 b where 2: "row_at sizeof_district_val (apply_writes ws1 rows) (key_bytes (KDistrict (no_w_id c2) (no_d_id c2))) = Some d2"
      "ws2 = new_order_writes bo b now2" "response2 = new_order_ok_response b" "no_w_id b = no_w_id c2" "no_d_id b = no_d_id c2"
      "no_c_id b = no_c_id c2" "no_d_next_o_id b = d_next_o_id (cast_district bo d2)"
    using new_order_spec_places [OF assms(3,4)] by metis
  have "d2 = d1" using 1(1) 2(1) assms(5,6) new_order_keeps_districts [OF assms(1)] by (simp add: row_at_def)
  then show ?thesis
    using 1 2 assms(5,6) new_order_order_row [of bo a now1 rows] new_order_order_row [of bo b now2 "apply_writes ws1 rows"]
    by (intro exI [of _ "no_d_next_o_id a"]) (auto simp: new_order_ok_response_def)
qed

section \<open>From a load on\<close>

definition loads :: "loader_env \<Rightarrow> i32 \<Rightarrow> rows \<Rightarrow> rows \<Rightarrow> bool" where
  "loads e ws rows rows' \<longleftrightarrow> healthy e \<and> 0 \<le> sint ws \<and> sint ws \<le> 214748364 \<and>
     (\<exists>args f. loader_args args = Inr (ws, f) \<and> loader_main e 0 0 0 0 args rows = Inr rows')"

lemma loads_rows:
  assumes "loads e ws rows rows'"
  shows "k \<in> loaded_keys ws \<Longrightarrow> \<exists>v. rows' k = Some v \<and> loaded_row (le_byte_order e) k v"
    and "k \<notin> loaded_keys ws \<Longrightarrow> rows' k = rows k"
proof -
  obtain args f where a: "healthy e" "loader_args args = Inr (ws, f)" "0 \<le> sint ws" "sint ws \<le> 214748364"
      "loader_main e 0 0 0 0 args rows = Inr rows'"
    using assms by (auto simp: loads_def)
  from loader_main_loads [OF a(1-4), of rows]
  show "k \<in> loaded_keys ws \<Longrightarrow> \<exists>v. rows' k = Some v \<and> loaded_row (le_byte_order e) k v"
    "k \<notin> loaded_keys ws \<Longrightarrow> rows' k = rows k"
    using a(5) by auto
qed

lemma loaded_row_shape: "loaded_row bo k v \<Longrightarrow> row_shape any_table k v"
  by (induction rule: loaded_row.induct)
    (auto simp: world_row_key_def TFB_WORLD_PREFIX_def intro!: tpcc_row world_row)

lemma loads_well_shaped: "loads e ws rows rows' \<Longrightarrow> well_shaped rows \<Longrightarrow> well_shaped rows'"
proof -
  assume l: "loads e ws rows rows'" and "well_shaped rows"
  then show "well_shaped rows'"
    unfolding well_shaped_def
  proof (intro allI impI)
    fix k v assume "rows' k = Some v"
    then show "row_shape any_table k v"
      using loads_rows [OF l, of k] loaded_row_shape [of "le_byte_order e" k v] \<open>well_shaped rows\<close>
      by (cases "k \<in> loaded_keys ws") (auto simp: well_shaped_def)
  qed
qed

lemma loads_customers: "loads e ws rows rows' \<Longrightarrow> rows' (key_bytes (KCustomer w d c)) = rows (key_bytes (KCustomer w d c))"
proof -
  have "key_bytes (KCustomer w d c) \<noteq> world_row_key i" for i
    unfolding world_row_key_def TFB_WORLD_PREFIX_def by (rule key_not_world)
  then have "key_bytes (KCustomer w d c) \<notin> loaded_keys ws"
    by (auto simp: loaded_keys_def item_keys_def warehouse_keys_def district_keys_def world_keys_def dest: key_bytes_inj)
  then show "loads e ws rows rows' \<Longrightarrow> ?thesis" using loads_rows(2) by simp
qed

text \<open>The warehouses of a load and their districts.\<close>

definition loaded_warehouse :: "i32 \<Rightarrow> u32 \<Rightarrow> bool" where
  "loaded_warehouse ws w \<longleftrightarrow> 1 \<le> w \<and> w \<le> ws"

lemma loaded_keys_warehouse:
  assumes "loaded_warehouse ws w"
  shows "key_bytes (KWarehouse w) \<in> loaded_keys ws" and "1 \<le> d \<Longrightarrow> d \<le> 10 \<Longrightarrow> key_bytes (KDistrict w d) \<in> loaded_keys ws"
proof -
  have w: "unat w \<in> {1..<Suc (unat ws)}" "of_nat (unat w) = w"
    using assms by (auto simp: loaded_warehouse_def word_le_nat_alt)
  then have "key_bytes (KWarehouse w) \<in> warehouse_keys ws"
    unfolding warehouse_keys_def by (intro UN_I [of "unat w"]) simp_all
  then show "key_bytes (KWarehouse w) \<in> loaded_keys ws" by (simp add: loaded_keys_def)
  assume "1 \<le> d" "d \<le> 10"
  then have d: "unat d \<in> {1..<Suc 10}" "of_nat (unat d) = d" by (auto simp: word_le_nat_alt)
  have "key_bytes (KDistrict w d) \<in> district_keys ws"
    unfolding district_keys_def using w d by (intro UN_I [of "unat w"] UN_I [of "unat d"]) simp_all
  then show "key_bytes (KDistrict w d) \<in> loaded_keys ws" by (simp add: loaded_keys_def)
qed

lemma loaded_warehouse_row:
  assumes "loads e ws rows rows'" and "loaded_warehouse ws w"
  obtains v where "rows' (key_bytes (KWarehouse w)) = Some (warehouse_bytes (le_byte_order e) v)" "warehouse_wf v" "w_ytd v = 30000000"
proof -
  obtain x where "rows' (key_bytes (KWarehouse w)) = Some x" "loaded_row (le_byte_order e) (key_bytes (KWarehouse w)) x"
    using loads_rows(1) [OF assms(1) loaded_keys_warehouse(1) [OF assms(2)]] by blast
  then show thesis
    using that key_not_world by (auto elim!: loaded_row.cases simp: world_row_key_def TFB_WORLD_PREFIX_def dest!: key_bytes_inj)
qed

lemma loaded_district_row:
  assumes "loads e ws rows rows'" and "loaded_warehouse ws w" and "1 \<le> d" and "d \<le> 10"
  obtains v where "rows' (key_bytes (KDistrict w d)) = Some (district_bytes (le_byte_order e) v)" "district_wf v" "d_ytd v = 3000000"
proof -
  obtain x where "rows' (key_bytes (KDistrict w d)) = Some x" "loaded_row (le_byte_order e) (key_bytes (KDistrict w d)) x"
    using loads_rows(1) [OF assms(1) loaded_keys_warehouse(2) [OF assms(2-4)]] by blast
  then show thesis
    using that key_not_world by (auto elim!: loaded_row.cases simp: world_row_key_def TFB_WORLD_PREFIX_def dest!: key_bytes_inj)
qed

lemma card_districts: "card {1..10::u32} = 10"
proof -
  have "unat ` {1..10::u32} = {1..10}"
  proof (intro equalityI subsetI)
    fix n :: nat assume "n \<in> {1..10}"
    then have "unat (of_nat n :: u32) = n" by (simp add: unsigned_of_nat take_bit_nat_eq_self_iff)
    then show "n \<in> unat ` {1..10::u32}"
      using \<open>n \<in> {1..10}\<close> by (intro image_eqI [of _ _ "of_nat n"]) (simp_all add: word_le_nat_alt)
  qed (auto simp: word_le_nat_alt)
  moreover have "card (unat ` {1..10::u32}) = card {1..10::u32}"
    by (rule card_image) (simp add: inj_on_def word_eq_iff_unsigned [where ?'a = nat])
  ultimately show ?thesis by simp
qed

lemma loads_balanced:
  assumes "loads e ws rows rows'" and "loaded_warehouse ws w"
  shows "balanced (le_byte_order e) rows' w"
proof -
  let ?bo = "le_byte_order e"
  obtain v where v: "rows' (key_bytes (KWarehouse w)) = Some (warehouse_bytes ?bo v)" "warehouse_wf v" "w_ytd v = 30000000"
    using loaded_warehouse_row [OF assms] by blast
  have w: "warehouse_ytd ?bo rows' w = 30000000"
    using v cast_warehouse_bytes [OF v(2), of ?bo "[]"] by (simp add: warehouse_ytd_def row_at_def)
  have "district_ytd ?bo rows' w d = 3000000" if d: "d \<in> {1..10}" for d
  proof -
    obtain x where x: "rows' (key_bytes (KDistrict w d)) = Some (district_bytes ?bo x)" "district_wf x" "d_ytd x = 3000000"
      using loaded_district_row [OF assms, of d] d by auto
    then show ?thesis
      using cast_district_bytes [OF x(2), of ?bo "[]"] by (simp add: district_ytd_def row_at_def)
  qed
  then have "(\<Sum>d \<in> {1..10}. district_ytd ?bo rows' w d) = (\<Sum>d \<in> {1..10::u32}. 3000000)"
    by (intro sum.cong) simp_all
  then show ?thesis using w by (simp add: balanced_def card_districts)
qed

section \<open>Examples\<close>

definition sunny_loader :: loader_env where
  "sunny_loader = \<lparr>le_create = (\<lambda>_. 0), le_block = (\<lambda>_. 0), le_error = (\<lambda>_. 0), le_applied = (\<lambda>_. True),
     le_rand_r = (\<lambda>s. (5, s + 1)), le_byte_order = Little_Endian\<rparr>"

lemma loads_sunny: "\<exists>rows'. loads sunny_loader 1 rows rows'"
proof -
  have h: "healthy sunny_loader"
    by (simp add: healthy_def durable_commits_def no_errors_def rand_r_nonneg_def sunny_loader_def)
  have args: "loader_args [''-w1''] = Inr (1, ''/etc/foundationdb/fdb.cluster'')"
    by (simp add: loader_args_def loader_arg_def atoi_def is_space_def is_digit_def c_str_def)
  show ?thesis using loader_main_loads [OF h args, of rows] h args by (auto simp: loads_def)
qed

lemma sunny_loader_simps [simp]: "le_byte_order sunny_loader = Little_Endian"
  by (simp add: sunny_loader_def)

lemma served_step:
  assumes "served_as st' (serve_request start run m reply st c) (Inr (ws, response))"
  obtains w where "serve_request start run m reply st c = Inr w" "finished w" "writes (attempt (log w)) = ws"
    "committed rows (log w) = apply_writes ws rows"
  using assms by (auto simp: served_as_def finished_def finished_world_def committed_def responses_def)

section \<open>An order and a payment\<close>

definition order_rows :: rows where
  "order_rows = [key_bytes (KDistrict 1 2) \<mapsto> district_bytes Little_Endian (zero_district\<lparr>d_next_o_id := 3001\<rparr>),
     key_bytes (KCustomer 1 2 3) \<mapsto> customer_bytes Little_Endian zero_customer,
     key_bytes (KCustomer 1 2 4) \<mapsto> customer_bytes Little_Endian zero_customer,
     key_bytes (KWarehouse 1) \<mapsto> warehouse_bytes Little_Endian zero_warehouse,
     key_bytes (KStock 1 77) \<mapsto> stock_bytes Little_Endian (zero_stock\<lparr>s_quantity := 12\<rparr>)]"

lemma order_rows_at:
  "order_rows (key_bytes (KDistrict 1 2)) = Some (district_bytes Little_Endian (zero_district\<lparr>d_next_o_id := 3001\<rparr>))"
  "order_rows (key_bytes (KCustomer 1 2 3)) = Some (customer_bytes Little_Endian zero_customer)"
  "order_rows (key_bytes (KCustomer 1 2 4)) = Some (customer_bytes Little_Endian zero_customer)"
  "order_rows (key_bytes (KStock 1 77)) = Some (stock_bytes Little_Endian (zero_stock\<lparr>s_quantity := 12\<rparr>))"
  "order_rows (key_bytes (KWarehouse 1)) = Some (warehouse_bytes Little_Endian zero_warehouse)"
proof -
  have keys: "key_bytes a = key_bytes b \<longleftrightarrow> a = b" for a b using key_bytes_inj by blast
  show "order_rows (key_bytes (KDistrict 1 2)) = Some (district_bytes Little_Endian (zero_district\<lparr>d_next_o_id := 3001\<rparr>))"
    "order_rows (key_bytes (KCustomer 1 2 3)) = Some (customer_bytes Little_Endian zero_customer)"
    "order_rows (key_bytes (KCustomer 1 2 4)) = Some (customer_bytes Little_Endian zero_customer)"
    "order_rows (key_bytes (KStock 1 77)) = Some (stock_bytes Little_Endian (zero_stock\<lparr>s_quantity := 12\<rparr>))"
    "order_rows (key_bytes (KWarehouse 1)) = Some (warehouse_bytes Little_Endian zero_warehouse)"
    by (simp_all add: order_rows_def keys)
qed

lemma writing_writes: "writing (Inr (new_order_writes bo c now, r1))" "writing (Inr (payment_writes bo p cv now, r2))"
  by (simp_all add: writing_def new_order_writes_def payment_writes_def)

lemma specs_of_empty:
  "new_order_spec bo Map.empty c now = Inr ([], H2o_send_error_generic 500 ''Error'' ''district not found'')"
  "payment_spec e Map.empty p now = Inr ([], H2o_send_error_generic 500 ''Error'' ''warehouse not found'')"
  by (simp_all add: new_order_spec_def payment_spec_def row_at_def)

definition order_of :: "u32 \<Rightarrow> new_order_ctx" where
  "order_of k = example_order\<lparr>no_c_id := k\<rparr>"

lemma order_of_fields [simp]:
  "no_ctx_ok (order_of k)" "no_ol_cnt (order_of k) = 1" "no_w_id (order_of k) = 1" "no_d_id (order_of k) = 2" "no_c_id (order_of k) = k"
  "no_ol_supply_w (order_of k) = 1 # replicate 14 0" "no_ol_i_id (order_of k) = 77 # replicate 14 0" "no_ol_quantity (order_of k) ! 0 = 4"
  by (simp_all add: order_of_def example_order_def zero_new_order_ctx_def no_ctx_ok_def)

lemma order_of_spec:
  assumes d: "rows (key_bytes (KDistrict 1 2)) = Some (district_bytes Little_Endian (zero_district\<lparr>d_next_o_id := 3001\<rparr>))"
    and cu: "rows (key_bytes (KCustomer 1 2 k)) = Some (customer_bytes Little_Endian zero_customer)"
    and sv: "rows (key_bytes (KStock 1 77)) = Some (stock_bytes Little_Endian sv)" "stock_wf sv" "stock_in_range (s_quantity sv)"
  obtains c' where
    "\<And>now. new_order_spec Little_Endian rows (order_of k) now = Inr (new_order_writes Little_Endian c' now, new_order_ok_response c')"
    "no_ol_cnt c' = 1" "no_ol_supply_w c' ! 0 = 1" "no_ol_i_id c' ! 0 = 77" "no_s_quantity c' ! 0 = restock (s_quantity sv) 4"
proof -
  let ?dv = "zero_district\<lparr>d_next_o_id := 3001\<rparr>"
  have wf: "district_wf ?dv" by (simp add: row_wf_defs row_zero_defs)
  have cast: "cast_district Little_Endian (district_bytes Little_Endian ?dv) = ?dv" "cast_stock Little_Endian (stock_bytes Little_Endian sv) = sv"
    using cast_district_bytes [OF wf, of _ "[]"] cast_stock_bytes [OF sv(2), of _ "[]"] by simp_all
  define c where "c = (order_of k)\<lparr>no_d_tax := d_tax zero_district, no_d_next_o_id := 3001,
      no_c_discount := c_discount (cast_customer Little_Endian (customer_bytes Little_Endian zero_customer)), no_current_ol := 0\<rparr>"
  define c' where "c' = stock_taken c (restock (s_quantity sv) 4)"
  have c: "stock_key c = key_bytes (KStock 1 77)" "no_current_ol c = 0" "no_ol_quantity c ! 0 = 4" "no_d_next_o_id c = 3001"
    by (simp_all add: c_def stock_key_def)
  have stocks: "stocks_spec Little_Endian rows (Suc 0) c = Inr (Some c')"
    using sv c by (simp add: row_at_def cast stock_left_eq c'_def)
  show thesis
  proof (rule that [of c'])
    show "new_order_spec Little_Endian rows (order_of k) now = Inr (new_order_writes Little_Endian c' now, new_order_ok_response c')" for now
      using d cu wf stocks c(4)
      by (simp add: new_order_spec_def row_at_def cast place_spec_def c'_def flip: c_def del: stocks_spec.simps)
  qed (simp_all add: c'_def c_def stock_taken_def order_of_def example_order_def zero_new_order_ctx_def)
qed

definition posting_payment :: payment_ctx where
  "posting_payment = example_payment\<lparr>pay_d_id := 2\<rparr>"

lemma posting_payment_fields [simp]:
  "pay_w_id posting_payment = 1" "pay_c_w_id posting_payment = 1" "pay_c_d_id posting_payment = 2"
  "pay_h_amount posting_payment = 500" "\<not> pay_by_name posting_payment" "payment_parameters_ok posting_payment"
  "pay_c_id (paying e posting_payment wval dval) = 3"
  by (simp_all add: posting_payment_def example_payment_def zero_payment_ctx_def payment_parameters_ok_def paying_def Let_def
      split: prod.splits)

lemma posting_payment_spec:
  assumes "rows (key_bytes (KWarehouse 1)) = Some (warehouse_bytes Little_Endian wv)" and "warehouse_wf wv"
    and "rows (key_bytes (KDistrict 1 2)) = Some (district_bytes Little_Endian dv)" and "district_wf dv"
    and "rows (key_bytes (KCustomer 1 2 3)) = Some (customer_bytes Little_Endian zero_customer)"
    and "w_ytd wv \<in> {0, 30000000}" and "d_ytd dv \<in> {0, 3000000}"
    and c: "c = paying sunny_env posting_payment (warehouse_bytes Little_Endian wv) (district_bytes Little_Endian dv)"
  shows "payment_in_range c zero_customer" and "pay_w_ytd c = w_ytd wv"
    and "payment_spec sunny_env rows posting_payment now =
      Inr (payment_writes Little_Endian c zero_customer now, payment_ok_response c)"
proof -
  have cast: "cast_warehouse Little_Endian (warehouse_bytes Little_Endian wv) = wv"
      "cast_district Little_Endian (district_bytes Little_Endian dv) = dv"
      "cast_customer Little_Endian (customer_bytes Little_Endian zero_customer) = zero_customer"
    using cast_warehouse_bytes [OF assms(2), of _ "[]"] cast_district_bytes [OF assms(4), of _ "[]"]
      cast_customer_bytes [of zero_customer _ "[]"] by simp_all
  show range: "payment_in_range c zero_customer"
    using assms(6,7) by (auto simp: payment_in_range_def cast c row_zero_defs)
  show "pay_w_ytd c = w_ytd wv" by (simp add: c cast)
  show "payment_spec sunny_env rows posting_payment now =
      Inr (payment_writes Little_Endian c zero_customer now, payment_ok_response c)"
    using assms(1-5) range by (simp add: payment_spec_def row_at_def cast pay_customer_def Let_def c)
qed

definition one_error_reply :: "call list \<Rightarrow> fdb_reply" where
  "one_error_reply l = (if retries l = 0 then ok_reply\<lparr>r_error := 1020\<rparr> else ok_reply)"

section \<open>Properties\<close>





text \<open>
  C5. Conflicts are retried to the end: when the commits of the first attempts at a NewOrder or at a Payment by customer
  number are answered with errors and the database lets it try again, each attempt reads the rows anew, nothing of the failed
  ones is written, and the request ends as the specification says of the rows that its last attempt sees, with
  one response.
\<close>

theorem conflicts_are_retried:
  assumes "serving e st" and "\<forall>j. errs j \<noteq> 0"
    and "no_ctx_ok c" and "0 < no_ol_cnt c" and "\<forall>j < k. writing (new_order_spec (e_byte_order e) (rows j) c now)"
    and "\<not> pay_by_name p" and "\<forall>j < k. writing (payment_spec e (rows j) p now)"
  shows "(\<exists>now. served_as (counted st)
      (serve_request (new_order_begin e) (no_run e) (k * (unat (no_ol_cnt c) + 4) + unat (no_ol_cnt c) + 3)
        (contended_reply rows scan errs k) st c)
      (new_order_spec (e_byte_order e) (rows k) c now)) \<and>
    (\<exists>now. served_as (counted st)
      (serve_request (payment_begin e) (pay_run e) (k * 5 + 4) (contended_reply rows scan errs k) st p)
      (payment_spec e (rows k) p now))"
  using new_order_request_retried(2) [where rows = rows and errs = errs, OF assms(1) _ assms(3,4) refl]
    payment_request_retried(2) [where rows = rows and errs = errs, OF assms(1) _ assms(6)] assms(2,5,7)
  by blast

theorem conflicts_are_retried_witness:
  "served_as (counted sunny_state)
     (serve_request (new_order_begin sunny_env) (no_run sunny_env) 9
       (contended_reply (\<lambda>j. if j = 0 then order_rows else Map.empty) (\<lambda>_ _. []) (\<lambda>_. 1020) 1) sunny_state (order_of 3))
     (Inr ([], H2o_send_error_generic 500 ''Error'' ''district not found'')) \<and>
   served_as (counted sunny_state)
     (serve_request (payment_begin sunny_env) (pay_run sunny_env) 9
       (contended_reply (\<lambda>j. if j = 0 then order_rows else Map.empty) (\<lambda>_ _. []) (\<lambda>_. 1020) 1) sunny_state posting_payment)
     (Inr ([], H2o_send_error_generic 500 ''Error'' ''warehouse not found''))"
proof -
  have s: "stock_wf (zero_stock\<lparr>s_quantity := 12\<rparr>)" "stock_in_range (s_quantity (zero_stock\<lparr>s_quantity := 12\<rparr>))"
      "warehouse_wf zero_warehouse" "w_ytd zero_warehouse \<in> {0, 30000000}"
      "district_wf (zero_district\<lparr>d_next_o_id := 3001\<rparr>)" "d_ytd (zero_district\<lparr>d_next_o_id := 3001\<rparr>) \<in> {0, 3000000}"
    by (simp_all add: row_wf_defs row_zero_defs stock_in_range_def)
  have "writing (new_order_spec Little_Endian order_rows (order_of 3) 0)"
    using order_of_spec [OF order_rows_at(1,2,4) s(1,2)] by (metis writing_writes(1))
  moreover have "writing (payment_spec sunny_env order_rows posting_payment 0)"
    using posting_payment_spec(3) [OF order_rows_at(5) s(3) order_rows_at(1) s(5) order_rows_at(2) s(4,6) refl, of 0] writing_writes(2) by simp
  ultimately show ?thesis
    using conflicts_are_retried [OF serving_sunny, of "\<lambda>_. 1020" "order_of 3" 1 "\<lambda>j. if j = 0 then order_rows else Map.empty" 0
        posting_payment "\<lambda>_ _. []"]
    by (simp add: specs_of_empty)
qed





text \<open>
  C8. The first consistency condition of TPC-C: in a loaded warehouse the year-to-date sum equals the sum of those of
  its ten districts, and every sequence of served requests keeps it so, for payments with parameters that the entry
  point can draw.
\<close>

theorem ytd_stays_balanced:
  assumes "loads e ws rows0 rows" and "loaded_warehouse ws w" and "(request_step (le_byte_order e))\<^sup>*\<^sup>* rows rows'"
  shows "warehouse_ytd (le_byte_order e) rows' w = (\<Sum>d \<in> {1..10}. district_ytd (le_byte_order e) rows' w d)"
  using request_run_balanced [OF assms(3) loads_balanced [OF assms(1,2)]] by (simp add: balanced_def)

lemma payment_posts_after_load:
  assumes "loads sunny_loader 1 [key_bytes (KCustomer 1 2 3) \<mapsto> customer_bytes Little_Endian zero_customer] rows"
  shows "\<exists>rows'. request_step Little_Endian rows rows' \<and> warehouse_ytd Little_Endian rows' 1 = 30000500"
proof -
  have w1: "loaded_warehouse 1 1" by (simp add: loaded_warehouse_def)
  obtain wv where wv: "rows (key_bytes (KWarehouse 1)) = Some (warehouse_bytes Little_Endian wv)" "warehouse_wf wv" "w_ytd wv = 30000000"
    using loaded_warehouse_row [OF assms w1] by auto
  obtain dv where dv: "rows (key_bytes (KDistrict 1 2)) = Some (district_bytes Little_Endian dv)" "district_wf dv" "d_ytd dv = 3000000"
    using loaded_district_row [OF assms w1, of 2] by auto
  have cu: "rows (key_bytes (KCustomer 1 2 3)) = Some (customer_bytes Little_Endian zero_customer)"
    using loads_customers [OF assms, of 1 2 3] by simp
  let ?c = "paying sunny_env posting_payment (warehouse_bytes Little_Endian wv) (district_bytes Little_Endian dv)"
  note spec = posting_payment_spec [OF wv(1,2) dv(1,2) cu _ _ refl]
  obtain now where "served_as (counted sunny_state)
      (serve_request (payment_begin sunny_env) (pay_run sunny_env) 4 (store_reply rows (\<lambda>_ _. [])) sunny_state posting_payment)
      (Inr (payment_writes Little_Endian ?c zero_customer now, payment_ok_response ?c))"
    using payment_request_served [OF serving_sunny, of rows "\<lambda>_ _. []" posting_payment] wv(3) dv(3) by (auto simp: spec(3))
  from served_step [OF this, of rows] obtain v where
    v: "serve_request (payment_begin sunny_env) (pay_run sunny_env) 4 (store_reply rows (\<lambda>_ _. [])) sunny_state posting_payment = Inr v"
      "finished v" "committed rows (log v) = apply_writes (payment_writes Little_Endian ?c zero_customer now) rows" by blast
  have "request_step Little_Endian rows (committed rows (log v))"
    using request_step.payment [OF _ serving_sunny _ _ v(1) [folded contended_reply_none [where errs = "\<lambda>_. 1"]] v(2), of Little_Endian]
    by simp
  then show ?thesis
    using v(3) payment_writes_ytd(1) [OF spec(1), of Little_Endian now rows 1] wv(3) dv(3) spec(2) by auto
qed

theorem ytd_stays_balanced_witness:
  "\<exists>rows0 rows rows'. loads sunny_loader 1 rows0 rows \<and> request_step Little_Endian rows rows' \<and>
     warehouse_ytd Little_Endian rows' 1 = 30000500 \<and> (\<Sum>d \<in> {1..10}. district_ytd Little_Endian rows' 1 d) = 30000500"
proof -
  let ?rows0 = "[key_bytes (KCustomer 1 2 3) \<mapsto> customer_bytes Little_Endian zero_customer]"
  obtain rows where l: "loads sunny_loader 1 ?rows0 rows" using loads_sunny by blast
  then obtain rows' where s: "request_step Little_Endian rows rows'" "warehouse_ytd Little_Endian rows' 1 = 30000500"
    using payment_posts_after_load by blast
  have "loaded_warehouse 1 1" by (simp add: loaded_warehouse_def)
  from ytd_stays_balanced [OF l this, of rows'] s l show ?thesis by auto
qed



text \<open>
  C15. Orders overwrite each other: when two NewOrders for the same district are served one after the other and both
  commit, they answer with the same order number, and the order row of the first is replaced by that of the second.
  The number is read from the district row, and what a NewOrder advances is the counter row.
\<close>

theorem consecutive_orders_collide:
  assumes "serving e st" and "no_ctx_ok c1" and "0 < no_ol_cnt c1" and "no_ctx_ok c2" and "0 < no_ol_cnt c2"
    and "no_w_id c2 = no_w_id c1" and "no_d_id c2 = no_d_id c1"
    and "serve_request (new_order_begin e) (no_run e) n1 (store_reply rows scan) st c1 = Inr w1" and "finished w1"
    and "writes (attempt (log w1)) \<noteq> []" and "rows1 = committed rows (log w1)"
    and "serve_request (new_order_begin e) (no_run e) n2 (store_reply rows1 scan) st c2 = Inr w2" and "finished w2"
    and "writes (attempt (log w2)) \<noteq> []"
  shows "filter is_response (log w1) = filter is_response (log w2) \<and>
    (\<exists>n v1 v2. rows1 (key_bytes (KOorder (no_w_id c1) (no_d_id c1) n)) = Some v1 \<and>
      committed rows1 (log w2) (key_bytes (KOorder (no_w_id c1) (no_d_id c1) n)) = Some v2 \<and>
      o_c_id (cast_oorder (e_byte_order e) v1) = no_c_id c1 \<and> o_c_id (cast_oorder (e_byte_order e) v2) = no_c_id c2)"
proof -
  obtain now1 now2 where "served_as (counted st)
      (serve_request (new_order_begin e) (no_run e) (unat (no_ol_cnt c1) + 3) (store_reply rows scan) st c1)
      (new_order_spec (e_byte_order e) rows c1 now1)"
    "served_as (counted st)
      (serve_request (new_order_begin e) (no_run e) (unat (no_ol_cnt c2) + 3) (store_reply rows1 scan) st c2)
      (new_order_spec (e_byte_order e) rows1 c2 now2)"
    using new_order_request_served [OF assms(1-3), of rows scan] new_order_request_served [OF assms(1,4,5), of rows1 scan] by blast
  from served_as_finished [OF this(1) assms(8,9)] served_as_finished [OF this(2) assms(12,13)]
  obtain ws1 r1 ws2 r2 where 1: "new_order_spec (e_byte_order e) rows c1 now1 = Inr (ws1, r1)" "writes (attempt (log w1)) = ws1"
      "filter is_response (log w1) = [r1]" "Fdb_commit \<in> set (attempt (log w1)) \<longleftrightarrow> ws1 \<noteq> []"
    and 2: "new_order_spec (e_byte_order e) rows1 c2 now2 = Inr (ws2, r2)" "writes (attempt (log w2)) = ws2"
      "filter is_response (log w2) = [r2]" "Fdb_commit \<in> set (attempt (log w2)) \<longleftrightarrow> ws2 \<noteq> []"
    by blast
  have ne: "ws1 \<noteq> []" "ws2 \<noteq> []" using 1(2) 2(2) assms(10,14) by simp_all
  have rows1: "rows1 = apply_writes ws1 rows" and "committed rows1 (log w2) = apply_writes ws2 rows1"
    using 1(2,4) 2(2,4) ne assms(11) by (simp_all add: committed_def)
  then show ?thesis
    using orders_collide [OF 1(1) ne(1) _ ne(2) assms(6,7), of now2 r2] 2(1) 1(3) 2(3) by auto
qed

text \<open>The order is served when the district, the customer and the item's stock are there; they stay there.\<close>

lemma order_of_served:
  assumes d: "rows (key_bytes (KDistrict 1 2)) = Some (district_bytes Little_Endian (zero_district\<lparr>d_next_o_id := 3001\<rparr>))"
    and cu: "rows (key_bytes (KCustomer 1 2 k)) = Some (customer_bytes Little_Endian zero_customer)"
    and sv: "rows (key_bytes (KStock 1 77)) = Some (stock_bytes Little_Endian sv)" "stock_wf sv" "stock_in_range (s_quantity sv)"
  obtains w sv' where
    "serve_request (new_order_begin sunny_env) (no_run sunny_env) 4 (store_reply rows scan) sunny_state (order_of k) = Inr w"
    "finished w" "writes (attempt (log w)) \<noteq> []"
    "committed rows (log w) (key_bytes (KStock 1 77)) = Some (stock_bytes Little_Endian sv')" "stock_wf sv'"
    "s_quantity sv' = restock (s_quantity sv) 4"
    "\<And>t. \<not> no_tables t \<Longrightarrow> committed rows (log w) (key_bytes t) = rows (key_bytes t)"
proof -
  obtain c' where
    spec: "\<And>now. new_order_spec Little_Endian rows (order_of k) now = Inr (new_order_writes Little_Endian c' now, new_order_ok_response c')"
    and c': "no_ol_cnt c' = 1" "no_ol_supply_w c' ! 0 = 1" "no_ol_i_id c' ! 0 = 77" "no_s_quantity c' ! 0 = restock (s_quantity sv) 4"
    using order_of_spec [OF assms] by blast
  let ?sv = "zero_stock\<lparr>s_quantity := restock (s_quantity sv) 4, s_order_cnt := 1, s_ytd := ucast (no_ol_quantity c' ! 0)\<rparr>"
  have stock: "apply_writes (new_order_writes Little_Endian c' now) rows (key_bytes (KStock 1 77)) = Some (stock_bytes Little_Endian ?sv)" for now
    using c' by (simp add: new_order_writes_def stock_set_def)
  obtain now where "served_as (counted sunny_state)
      (serve_request (new_order_begin sunny_env) (no_run sunny_env) 4 (store_reply rows scan) sunny_state (order_of k))
      (Inr (new_order_writes Little_Endian c' now, new_order_ok_response c'))"
    using new_order_request_served [OF serving_sunny, of "order_of k" rows scan] by (auto simp: spec)
  from served_step [OF this, of rows] obtain w where
    w: "serve_request (new_order_begin sunny_env) (no_run sunny_env) 4 (store_reply rows scan) sunny_state (order_of k) = Inr w"
      "finished w" "writes (attempt (log w)) = new_order_writes Little_Endian c' now"
      "committed rows (log w) = apply_writes (new_order_writes Little_Endian c' now) rows" by blast
  have "writes (attempt (log w)) \<noteq> []" "committed rows (log w) (key_bytes (KStock 1 77)) = Some (stock_bytes Little_Endian ?sv)"
      "stock_wf ?sv" "s_quantity ?sv = restock (s_quantity sv) 4"
    unfolding w(3,4) stock by (simp_all add: new_order_writes_def row_wf_defs row_zero_defs)
  then show thesis
    using that [OF w(1,2)] committed_other [OF new_order_shaped [OF w(1)]] by blast
qed

theorem consecutive_orders_collide_witness:
  "\<exists>w1 w2. serve_request (new_order_begin sunny_env) (no_run sunny_env) 4 (store_reply order_rows (\<lambda>_ _. [])) sunny_state (order_of 3) = Inr w1 \<and>
     serve_request (new_order_begin sunny_env) (no_run sunny_env) 4 (store_reply (committed order_rows (log w1)) (\<lambda>_ _. [])) sunny_state
       (order_of 4) = Inr w2 \<and>
     filter is_response (log w1) = filter is_response (log w2)"
proof -
  note r = order_rows_at
  have s: "stock_wf (zero_stock\<lparr>s_quantity := 12\<rparr>)" "stock_in_range (s_quantity (zero_stock\<lparr>s_quantity := 12\<rparr>))"
    by (simp_all add: row_wf_defs row_zero_defs stock_in_range_def)
  from order_of_served [OF r(1,2,4) s, of "\<lambda>_ _. []"] obtain w1 sv where
    w1: "serve_request (new_order_begin sunny_env) (no_run sunny_env) 4 (store_reply order_rows (\<lambda>_ _. [])) sunny_state (order_of 3) = Inr w1"
      "finished w1" "writes (attempt (log w1)) \<noteq> []"
      "committed order_rows (log w1) (key_bytes (KStock 1 77)) = Some (stock_bytes Little_Endian sv)" "stock_wf sv"
      "s_quantity sv = restock 12 4" "\<And>t. \<not> no_tables t \<Longrightarrow> committed order_rows (log w1) (key_bytes t) = order_rows (key_bytes t)"
    by auto
  have "stock_in_range (s_quantity sv)"
    using restock_sint(2) [of 12 4] by (simp add: w1(6) stock_in_range_def)
  from order_of_served [of "committed order_rows (log w1)" 4, OF _ _ w1(4,5) this, of "\<lambda>_ _. []"] obtain w2 where
    w2: "serve_request (new_order_begin sunny_env) (no_run sunny_env) 4 (store_reply (committed order_rows (log w1)) (\<lambda>_ _. []))
        sunny_state (order_of 4) = Inr w2" "finished w2" "writes (attempt (log w2)) \<noteq> []"
    using w1(7) [of "KDistrict 1 2"] w1(7) [of "KCustomer 1 2 4"] r(1,3) by auto
  from consecutive_orders_collide [OF serving_sunny _ _ _ _ _ _ w1(1-3) refl w2] w1(1) w2(1) show ?thesis by auto
qed

end
